theory Spec2Isabelle
  imports Complex_Main
begin

section \<open>Data model\<close>

text \<open>
  The program computes with C++ \<^verbatim>\<open>double\<close>, IEEE 754 binary64. A finite
  \<^verbatim>\<open>double\<close> is a \<^typ>\<open>real\<close> that binary64 rounding keeps. In the x-grid loop
  and in the tick computation, where a rounding can change how many points there are or
  whether a loop ends, every addition, subtraction, multiplication and division is the
  exact operation followed by the rounding to nearest with ties to even, a decimal literal
  is the rounding of its decimal, and \<^verbatim>\<open>std::log10\<close> and \<^verbatim>\<open>std::pow\<close> are
  taken as correctly rounded; no operation is fused with another or carried in a wider
  format. The band sums of the synthesis and the padding of the y range are kept exact:
  there a rounding changes the last bits of a reported value and nothing else. The tick
  computation rounds the ends of the y range at its first operations on them.
\<close>

text \<open>\<^verbatim>\<open>struct PlotSpecParams\<close>, with the defaults of its member initialisers below.\<close>

record PlotSpecParams =
  mode :: string
  unit :: string
  x_start :: real
  x_end :: real
  interval :: real
  user_set_interval :: bool
  fwhm_cm_minus_1 :: real
  input_filenames :: "string list"
  legend_names :: "string list"
  output_format :: string
  output_filename :: string
  interactive :: bool
  kT_eV :: real

definition EV_TO_CM_MINUS_1 :: real where
  "EV_TO_CM_MINUS_1 = 8065.54477"

definition KB_EV_PER_K :: real where
  "KB_EV_PER_K = (1.3806504 / 10 ^ 23) / (1.602176487 / 10 ^ 19)"

definition ROOM_TEMP_K :: real where
  "ROOM_TEMP_K = 298.15"

definition default_params :: PlotSpecParams where
  "default_params =
     \<lparr> mode = ''abs'', unit = ''nm'', x_start = 200, x_end = 1000, interval = 1,
       user_set_interval = False, fwhm_cm_minus_1 = 0.5 * EV_TO_CM_MINUS_1,
       input_filenames = [], legend_names = [], output_format = ''svg'',
       output_filename = ''spectrum_plot'', interactive = True,
       kT_eV = ROOM_TEMP_K * KB_EV_PER_K \<rparr>"

text \<open>\<^verbatim>\<open>struct SpectrumData\<close>.\<close>

record SpectrumData =
  x_values :: "real list"
  y_values :: "real list"
  x_label :: string
  y_label :: string
  title :: string

section \<open>Binary64 rounding\<close>

text \<open>
  Rounding of a real to the nearest binary64 value, ties to the even significand. The unit
  in the last place of \<open>x\<close> is \<open>2 ^ (e - 52)\<close> for the binary exponent \<open>e\<close> of \<open>x\<close>, which
  is at least \<open>- 1022\<close> (below that the values are subnormal and share one unit). A value
  that rounds to \<open>2 ^ 1024\<close> or beyond overflows; where that matters the caller tests for
  it.
\<close>

definition round_half_even :: "real \<Rightarrow> int" where
  "round_half_even q =
     (let f = \<lfloor>q\<rfloor> in
      if q - of_int f < 1 / 2 then f
      else if 1 / 2 < q - of_int f then f + 1
      else if even f then f else f + 1)"

definition binary64_exponent :: "real \<Rightarrow> int" where
  "binary64_exponent x = max \<lfloor>log 2 \<bar>x\<bar>\<rfloor> (- 1022)"

definition binary64_ulp :: "real \<Rightarrow> real" where
  "binary64_ulp x = 2 powr (of_int (binary64_exponent x) - 52)"

definition binary64_round :: "real \<Rightarrow> real" where
  "binary64_round x =
     (if x = 0 then 0 else of_int (round_half_even (x / binary64_ulp x)) * binary64_ulp x)"

text \<open>\<^verbatim>\<open>std::numeric_limits<double>::max()\<close>; \<^verbatim>\<open>lowest()\<close> is its negation.\<close>

definition DBL_MAX :: real where
  "DBL_MAX = 2 ^ 1024 - 2 ^ 971"

text \<open>The reals that are finite binary64 values.\<close>

definition is_double :: "real \<Rightarrow> bool" where
  "is_double x \<longleftrightarrow> binary64_round x = x \<and> \<bar>x\<bar> \<le> DBL_MAX"

section \<open>The x grid\<close>

text \<open>
  \<^verbatim>\<open>
  double current_x = params.x_start;
  while (current_x <= params.x_end + 1e-8) {
      spectrum.x_values.push_back(current_x);
      current_x += params.interval;
  }
  \<close>
  The loop need not return, so its model is a partial function: \<open>None\<close> is the run that
  never leaves the loop. The bound and every new \<^verbatim>\<open>current_x\<close> are rounded sums.
  A sum that overflows is \<^verbatim>\<open>+inf\<close> in the program and ends the loop there; here it
  is a real beyond every \<^verbatim>\<open>double\<close>, which is beyond the bound and ends the loop
  as well.
\<close>

partial_function (option) x_grid_loop ::
  "real \<Rightarrow> real \<Rightarrow> real \<Rightarrow> real list \<Rightarrow> real list option" where
  "x_grid_loop bound step current_x acc =
     (if current_x \<le> bound
      then x_grid_loop bound step (binary64_round (current_x + step)) (acc @ [current_x])
      else Some acc)"

definition x_grid_bound :: "PlotSpecParams \<Rightarrow> real" where
  "x_grid_bound p = binary64_round (x_end p + binary64_round (1 / 10 ^ 8))"

definition generate_x_values :: "PlotSpecParams \<Rightarrow> real list option" where
  "generate_x_values p = x_grid_loop (x_grid_bound p) (interval p) (x_start p) []"

text \<open>
  The update of the loop variable, \<^verbatim>\<open>current_x += params.interval\<close> here and
  \<^verbatim>\<open>tick += nice_step\<close> in the tick loop below: the rounded sum.
\<close>

definition grid_next :: "real \<Rightarrow> real \<Rightarrow> real" where
  "grid_next step current_x = binary64_round (current_x + step)"

section \<open>Spectrum synthesis\<close>

text \<open>\<^verbatim>\<open>ends_with\<close>: \<^verbatim>\<open>std::equal\<close> over the reversed strings.\<close>

definition ends_with :: "string \<Rightarrow> string \<Rightarrow> bool" where
  "ends_with val ending =
     (if length ending > length val then False
      else take (length ending) (rev val) = rev ending)"

text \<open>
  The head of \<^verbatim>\<open>calculate_single_spectrum\<close>: the input file is opened under its
  name, then with \<^verbatim>\<open>.out\<close> and \<^verbatim>\<open>.log\<close> appended when the name has
  neither ending. \<open>can_open\<close> is the file system: which names open. The result is the name
  that opened.
\<close>

definition open_input :: "(string \<Rightarrow> bool) \<Rightarrow> string \<Rightarrow> string option" where
  "open_input can_open filename =
     (if can_open filename then Some filename
      else if \<not> ends_with filename ''.out'' \<and> \<not> ends_with filename ''.log'' then
        (if can_open (filename @ ''.out'') then Some (filename @ ''.out'')
         else if can_open (filename @ ''.log'') then Some (filename @ ''.log'')
         else None)
      else None)"

text \<open>
  The three band sums, one per mode, each with its branch on the unit. \<^verbatim>\<open>pow(v, 2)\<close>
  is the square; a unit without a branch leaves \<^verbatim>\<open>intensity\<close> at \<open>0.0\<close>.
\<close>

definition abs_intensity :: "string \<Rightarrow> real \<Rightarrow> real \<Rightarrow> real \<Rightarrow> real" where
  "abs_intensity u shift_factor intensity_factor x =
     (if u = ''nm'' then
        0 + intensity_factor * 15000 * exp (- ((x - 280 - shift_factor) / 15)\<^sup>2)
          + intensity_factor * 12000 * exp (- ((x - 320 - shift_factor) / 20)\<^sup>2)
          + intensity_factor * 8000 * exp (- ((x - 420 - shift_factor) / 25)\<^sup>2)
          + intensity_factor * 5000 * exp (- ((x - 520 - shift_factor) / 30)\<^sup>2)
      else if u = ''eV'' then
        (let eV_shift = shift_factor / 1000 in
         0 + intensity_factor * 15000 * exp (- ((x - 3.1 - eV_shift) / 0.15)\<^sup>2)
           + intensity_factor * 12000 * exp (- ((x - 3.9 - eV_shift) / 0.2)\<^sup>2)
           + intensity_factor * 8000 * exp (- ((x - 4.4 - eV_shift) / 0.1)\<^sup>2))
      else if u = ''cm-1'' then
        (let cm_shift = shift_factor * 100 in
         0 + intensity_factor * 15000 * exp (- ((x - 25000 - cm_shift) / 2000)\<^sup>2)
           + intensity_factor * 12000 * exp (- ((x - 31000 - cm_shift) / 1500)\<^sup>2)
           + intensity_factor * 8000 * exp (- ((x - 35000 - cm_shift) / 1000)\<^sup>2))
      else 0)"

definition emi_intensity :: "string \<Rightarrow> real \<Rightarrow> real \<Rightarrow> real \<Rightarrow> real" where
  "emi_intensity u shift_factor intensity_factor x =
     (if u = ''nm'' then
        0 + intensity_factor * 0.9 * exp (- ((x - 350 - shift_factor) / 20)\<^sup>2)
          + intensity_factor * 0.7 * exp (- ((x - 450 - shift_factor) / 25)\<^sup>2)
          + intensity_factor * 0.5 * exp (- ((x - 550 - shift_factor) / 30)\<^sup>2)
      else if u = ''eV'' then
        (let eV_shift = shift_factor / 1000 in
         0 + intensity_factor * 0.9 * exp (- ((x - 2.8 - eV_shift) / 0.15)\<^sup>2)
           + intensity_factor * 0.7 * exp (- ((x - 3.2 - eV_shift) / 0.2)\<^sup>2)
           + intensity_factor * 0.5 * exp (- ((x - 3.6 - eV_shift) / 0.1)\<^sup>2))
      else 0)"

definition cd_intensity :: "string \<Rightarrow> real \<Rightarrow> real \<Rightarrow> real \<Rightarrow> real" where
  "cd_intensity u shift_factor intensity_factor x =
     (if u = ''nm'' then
        0 + intensity_factor * 50 * exp (- ((x - 260 - shift_factor) / 15)\<^sup>2)
          - intensity_factor * 40 * exp (- ((x - 300 - shift_factor) / 20)\<^sup>2)
          + intensity_factor * 30 * exp (- ((x - 340 - shift_factor) / 18)\<^sup>2)
          - intensity_factor * 20 * exp (- ((x - 380 - shift_factor) / 25)\<^sup>2)
      else if u = ''eV'' then
        (let eV_shift = shift_factor / 1000 in
         0 + intensity_factor * 50 * exp (- ((x - 4.0 - eV_shift) / 0.15)\<^sup>2)
           - intensity_factor * 40 * exp (- ((x - 3.5 - eV_shift) / 0.2)\<^sup>2)
           + intensity_factor * 30 * exp (- ((x - 3.0 - eV_shift) / 0.18)\<^sup>2))
      else 0)"

text \<open>
  The labels are UTF-8 byte strings: the middle dot is \<open>C2 B7\<close>, the Greek capital delta
  \<open>CE 94\<close>, the small epsilon \<open>CE B5\<close>, the superscript minus \<open>E2 81 BB\<close> and the
  superscript one \<open>C2 B9\<close>.
\<close>

definition abs_y_label :: string where
  "abs_y_label = ''Molar Absorptivity (L/(mol'' @ [CHR 0xC2, CHR 0xB7] @ ''cm))''"

definition cd_y_label :: string where
  "cd_y_label = [CHR 0xCE, CHR 0x94, CHR 0xCE, CHR 0xB5] @ '' (L/(mol''
                  @ [CHR 0xC2, CHR 0xB7] @ ''cm))''"

definition wavenumber_x_label :: string where
  "wavenumber_x_label = ''Wavenumber (cm'' @ [CHR 0xE2, CHR 0x81, CHR 0xBB, CHR 0xC2, CHR 0xB9]
                          @ '')''"

text \<open>
  The body of \<^verbatim>\<open>calculate_single_spectrum\<close> once the file is open: the grid,
  \<^verbatim>\<open>y_values\<close> resized to the grid's length with zeros, the per-file shift and
  intensity factor, the branch on the mode that fills \<^verbatim>\<open>y_values\<close> and sets
  \<^verbatim>\<open>y_label\<close> and \<^verbatim>\<open>title\<close>, and the branch on the unit that sets
  \<^verbatim>\<open>x_label\<close>. A default-constructed \<^verbatim>\<open>std::string\<close> is empty.
\<close>

definition synthesize :: "PlotSpecParams \<Rightarrow> int \<Rightarrow> SpectrumData option" where
  "synthesize params file_index =
     (case generate_x_values params of
        None \<Rightarrow> None
      | Some xs \<Rightarrow>
          (let shift_factor = of_int file_index * 20;
               intensity_factor = 1 - of_int file_index * 0.15;
               (ys, yl, tl) =
                 (if mode params = ''abs'' then
                    (map (abs_intensity (unit params) shift_factor intensity_factor) xs,
                     abs_y_label, ''Absorption Spectra'')
                  else if mode params = ''emi'' then
                    (map (emi_intensity (unit params) shift_factor intensity_factor) xs,
                     ''Emission Intensity (arb. units)'', ''Emission Spectra'')
                  else if mode params = ''cd'' \<or> mode params = ''cdl'' then
                    (map (cd_intensity (unit params) shift_factor intensity_factor) xs,
                     cd_y_label, ''Circular Dichroism Spectra'')
                  else (replicate (length xs) 0, [], []));
               xl = (if unit params = ''nm'' then ''Wavelength (nm)''
                     else if unit params = ''eV'' then ''Energy (eV)''
                     else if unit params = ''cm-1'' then wavenumber_x_label
                     else [])
           in Some \<lparr> x_values = xs, y_values = ys, x_label = xl, y_label = yl, title = tl \<rparr>))"

text \<open>
  \<^verbatim>\<open>calculate_single_spectrum\<close>: \<open>Some (Inl msg)\<close> is the
  \<^verbatim>\<open>std::runtime_error\<close> thrown with that message, \<open>Some (Inr s)\<close> the returned
  spectrum, \<open>None\<close> the call that does not return.
\<close>

definition calculate_single_spectrum ::
  "(string \<Rightarrow> bool) \<Rightarrow> string \<Rightarrow> PlotSpecParams \<Rightarrow> int \<Rightarrow> (string + SpectrumData) option" where
  "calculate_single_spectrum can_open filename params file_index =
     (case open_input can_open filename of
        None \<Rightarrow> Some (Inl (''Cannot open BDF output file: '' @ filename))
      | Some full_filename \<Rightarrow> map_option Inr (synthesize params file_index))"

text \<open>
  \<^verbatim>\<open>calculate_multiple_spectra\<close>: one spectrum per input file, with the file's
  position as its index; the first exception ends the loop. The closing report reads
  \<^verbatim>\<open>spectra[0]\<close>, which is undefined for an empty vector (\<open>None\<close>).
\<close>

fun spectra_loop ::
  "(string \<Rightarrow> bool) \<Rightarrow> PlotSpecParams \<Rightarrow> string list \<Rightarrow> int \<Rightarrow> SpectrumData list
     \<Rightarrow> (string + SpectrumData list) option" where
  "spectra_loop can_open params [] i spectra = Some (Inr spectra)"
| "spectra_loop can_open params (f # fs) i spectra =
     (case calculate_single_spectrum can_open f params i of
        None \<Rightarrow> None
      | Some (Inl msg) \<Rightarrow> Some (Inl msg)
      | Some (Inr spectrum) \<Rightarrow> spectra_loop can_open params fs (i + 1) (spectra @ [spectrum]))"

definition calculate_multiple_spectra ::
  "(string \<Rightarrow> bool) \<Rightarrow> PlotSpecParams \<Rightarrow> (string + SpectrumData list) option" where
  "calculate_multiple_spectra can_open params =
     (case spectra_loop can_open params (input_filenames params) 0 [] of
        Some (Inr spectra) \<Rightarrow> (if spectra = [] then None else Some (Inr spectra))
      | r \<Rightarrow> r)"

section \<open>Axis range and ticks\<close>

text \<open>
  \<^verbatim>\<open>*std::min_element(first, last)\<close> and \<^verbatim>\<open>*std::max_element(first, last)\<close>: on
  an empty range the iterator returned is \<^verbatim>\<open>last\<close> and reading through it is
  undefined (\<open>None\<close>).
\<close>

definition min_element :: "real list \<Rightarrow> real option" where
  "min_element ys = (case ys of [] \<Rightarrow> None | y # rest \<Rightarrow> Some (fold min rest y))"

definition max_element :: "real list \<Rightarrow> real option" where
  "max_element ys = (case ys of [] \<Rightarrow> None | y # rest \<Rightarrow> Some (fold max rest y))"

fun overall_y_loop :: "SpectrumData list \<Rightarrow> real \<Rightarrow> real \<Rightarrow> (real \<times> real) option" where
  "overall_y_loop [] overall_y_min overall_y_max = Some (overall_y_min, overall_y_max)"
| "overall_y_loop (spectrum # rest) overall_y_min overall_y_max =
     (case min_element (y_values spectrum) of
        None \<Rightarrow> None
      | Some spec_min \<Rightarrow>
          (case max_element (y_values spectrum) of
             None \<Rightarrow> None
           | Some spec_max \<Rightarrow>
               overall_y_loop rest (min overall_y_min spec_min) (max overall_y_max spec_max)))"

text \<open>
  The y range of \<^verbatim>\<open>create_and_export_multiple_plots\<close>: the overall minimum and
  maximum, ten percent of their distance as padding on both sides, and the floor at zero
  for the modes other than \<^verbatim>\<open>cd\<close> and \<^verbatim>\<open>cdl\<close>. The result is
  \<open>(y_min, y_max)\<close>.
\<close>

definition y_axis_range :: "SpectrumData list \<Rightarrow> PlotSpecParams \<Rightarrow> (real \<times> real) option" where
  "y_axis_range spectra params =
     (case overall_y_loop spectra DBL_MAX (- DBL_MAX) of
        None \<Rightarrow> None
      | Some (overall_y_min, overall_y_max) \<Rightarrow>
          (let y_range = overall_y_max - overall_y_min;
               y_padding = y_range * 0.1;
               y_min = overall_y_min - y_padding;
               y_max = overall_y_max + y_padding
           in if mode params \<noteq> ''cd'' \<and> mode params \<noteq> ''cdl'' \<and> overall_y_min \<ge> 0
              then Some (0, overall_y_max + y_range * 0.1)
              else Some (y_min, y_max)))"

text \<open>
  The tick computation divides by a step that can be zero and takes the logarithm of it,
  so here a \<^verbatim>\<open>double\<close> carries the special values of IEEE 754: the infinities
  and NaN. \<open>fl\<close> is the result of an operation whose exact value is \<open>x\<close>: the rounding,
  or an infinity when that overflows. The sign of a zero is not kept: every zero this
  computation divides by is a positive one (the result of \<^verbatim>\<open>pow\<close>, a multiple of
  it, or a converted integer), and a zero it divides gives NaN or a zero under either
  sign.
\<close>

datatype double = Finite real | PosInf | NegInf | NaN

definition fl :: "real \<Rightarrow> double" where
  "fl x =
     (let y = binary64_round x in
      if 2 ^ 1024 \<le> y then PosInf else if y \<le> - (2 ^ 1024) then NegInf else Finite y)"

fun d_neg :: "double \<Rightarrow> double" where
  "d_neg (Finite a) = Finite (- a)"
| "d_neg PosInf = NegInf"
| "d_neg NegInf = PosInf"
| "d_neg NaN = NaN"

fun d_add :: "double \<Rightarrow> double \<Rightarrow> double" where
  "d_add (Finite a) (Finite b) = fl (a + b)"
| "d_add NaN _ = NaN"
| "d_add _ NaN = NaN"
| "d_add PosInf NegInf = NaN"
| "d_add NegInf PosInf = NaN"
| "d_add PosInf _ = PosInf"
| "d_add _ PosInf = PosInf"
| "d_add NegInf _ = NegInf"
| "d_add _ NegInf = NegInf"

definition d_sub :: "double \<Rightarrow> double \<Rightarrow> double" where
  "d_sub a b = d_add a (d_neg b)"

fun d_mul :: "double \<Rightarrow> double \<Rightarrow> double" where
  "d_mul (Finite a) (Finite b) = fl (a * b)"
| "d_mul NaN _ = NaN"
| "d_mul _ NaN = NaN"
| "d_mul (Finite a) PosInf = (if a = 0 then NaN else if 0 < a then PosInf else NegInf)"
| "d_mul (Finite a) NegInf = (if a = 0 then NaN else if 0 < a then NegInf else PosInf)"
| "d_mul PosInf (Finite b) = (if b = 0 then NaN else if 0 < b then PosInf else NegInf)"
| "d_mul NegInf (Finite b) = (if b = 0 then NaN else if 0 < b then NegInf else PosInf)"
| "d_mul PosInf PosInf = PosInf"
| "d_mul NegInf NegInf = PosInf"
| "d_mul PosInf NegInf = NegInf"
| "d_mul NegInf PosInf = NegInf"

fun d_div :: "double \<Rightarrow> double \<Rightarrow> double" where
  "d_div (Finite a) (Finite b) =
     (if b \<noteq> 0 then fl (a / b)
      else if a = 0 then NaN else if 0 < a then PosInf else NegInf)"
| "d_div NaN _ = NaN"
| "d_div _ NaN = NaN"
| "d_div (Finite a) _ = Finite 0"
| "d_div PosInf (Finite b) = (if 0 \<le> b then PosInf else NegInf)"
| "d_div NegInf (Finite b) = (if 0 \<le> b then NegInf else PosInf)"
| "d_div _ _ = NaN"

fun d_le :: "double \<Rightarrow> double \<Rightarrow> bool" where
  "d_le (Finite a) (Finite b) = (a \<le> b)"
| "d_le NaN _ = False"
| "d_le _ NaN = False"
| "d_le NegInf _ = True"
| "d_le _ PosInf = True"
| "d_le _ _ = False"

text \<open>\<^verbatim>\<open>std::log10\<close>, correctly rounded.\<close>

fun d_log10 :: "double \<Rightarrow> double" where
  "d_log10 (Finite a) = (if 0 < a then fl (log 10 a) else if a = 0 then NegInf else NaN)"
| "d_log10 PosInf = PosInf"
| "d_log10 NegInf = NaN"
| "d_log10 NaN = NaN"

text \<open>\<^verbatim>\<open>std::floor\<close> and \<^verbatim>\<open>std::ceil\<close>: exact, an integer of a
  \<^verbatim>\<open>double\<close> being one.\<close>

fun d_floor :: "double \<Rightarrow> double" where
  "d_floor (Finite a) = Finite (of_int \<lfloor>a\<rfloor>)"
| "d_floor d = d"

fun d_ceil :: "double \<Rightarrow> double" where
  "d_ceil (Finite a) = Finite (of_int \<lceil>a\<rceil>)"
| "d_ceil d = d"

text \<open>\<^verbatim>\<open>std::pow(10, y)\<close>, correctly rounded.\<close>

fun d_pow10 :: "double \<Rightarrow> double" where
  "d_pow10 (Finite y) = fl (10 powr y)"
| "d_pow10 PosInf = PosInf"
| "d_pow10 NegInf = Finite 0"
| "d_pow10 NaN = NaN"

text \<open>
  The lambda \<^verbatim>\<open>calculateNiceTicks\<close>, and its loop
  \<^verbatim>\<open>for (double tick = start; tick <= max_val + nice_step * 0.1; tick += nice_step)\<close>.
  The integers \<open>1\<close>, \<open>2\<close>, \<open>5\<close>, \<open>10\<close> and \<^verbatim>\<open>target_ticks - 1\<close> convert
  exactly; \<open>0.1\<close> is the rounded decimal.
\<close>

partial_function (option) tick_loop ::
  "double \<Rightarrow> double \<Rightarrow> double \<Rightarrow> double list \<Rightarrow> double list option" where
  "tick_loop bound nice_step tick ticks =
     (if d_le tick bound
      then tick_loop bound nice_step (d_add tick nice_step) (ticks @ [tick])
      else Some ticks)"

definition calculateNiceTicks :: "real \<Rightarrow> real \<Rightarrow> int \<Rightarrow> double list option" where
  "calculateNiceTicks min_val max_val target_ticks =
     (let val_range = d_sub (Finite max_val) (Finite min_val);
          rough_step = d_div val_range (Finite (of_int (target_ticks - 1)));
          magnitude = d_pow10 (d_floor (d_log10 rough_step));
          normalized = d_div rough_step magnitude;
          nice_step =
            (if d_le normalized (Finite 1) then magnitude
             else if d_le normalized (Finite 2) then d_mul (Finite 2) magnitude
             else if d_le normalized (Finite 5) then d_mul (Finite 5) magnitude
             else d_mul (Finite 10) magnitude);
          start = d_mul (d_ceil (d_div (Finite min_val) nice_step)) nice_step
      in tick_loop (d_add (Finite max_val) (d_mul nice_step (fl (1 / 10)))) nice_step start [])"

section \<open>Export and the process\<close>

text \<open>
  The export branch of \<^verbatim>\<open>create_and_export_multiple_plots\<close>: the file the chosen
  writer is asked to write, if any. The vector exporter gets the file prefix and appends the
  format's extension itself; the raster writers get \<^verbatim>\<open>full_output_name\<close>.
\<close>

definition full_output_name :: "PlotSpecParams \<Rightarrow> string" where
  "full_output_name params = output_filename params @ ''.'' @ output_format params"

definition exported_file :: "PlotSpecParams \<Rightarrow> string option" where
  "exported_file params =
     (if output_format params = ''svg'' \<or> output_format params = ''eps''
         \<or> output_format params = ''pdf''
      then Some (output_filename params @ ''.'' @ output_format params)
      else if output_format params = ''png'' \<or> output_format params = ''jpg''
         \<or> output_format params = ''jpeg''
      then Some (full_output_name params)
      else None)"

text \<open>
  What \<^verbatim>\<open>create_and_export_multiple_plots\<close> hands to the chart and leaves behind:
  the y range, the tick positions of both axes, the file written and the line it prints
  after the export branch. Colours, fonts and the legend (whose names
  \<^verbatim>\<open>parse_arguments\<close> makes as many as the input files) are not part of the model, nor
  is the interactive viewer, which returns when its window is closed. \<open>None\<close> is undefined
  behaviour: \<^verbatim>\<open>spectra[0]\<close> of an empty vector, or the minimum of an empty
  \<^verbatim>\<open>y_values\<close>.
\<close>

record ChartExport =
  y_min :: real
  y_max :: real
  x_ticks :: "double list"
  y_ticks :: "double list"
  written_file :: "string option"
  export_report :: string

definition create_and_export_multiple_plots ::
  "SpectrumData list \<Rightarrow> PlotSpecParams \<Rightarrow> ChartExport option" where
  "create_and_export_multiple_plots spectra params =
     (if spectra = [] then None
      else case y_axis_range spectra params of
        None \<Rightarrow> None
      | Some (lo, hi) \<Rightarrow>
          (case calculateNiceTicks (x_start params) (x_end params) 6 of
             None \<Rightarrow> None
           | Some xt \<Rightarrow>
               (case calculateNiceTicks lo hi 6 of
                  None \<Rightarrow> None
                | Some yt \<Rightarrow>
                    Some \<lparr> y_min = lo, y_max = hi, x_ticks = xt, y_ticks = yt,
                           written_file = exported_file params,
                           export_report = ''Plot exported to: '' @ full_output_name params \<rparr>)))"

text \<open>
  \<^verbatim>\<open>main\<close> from the resolved parameter record on. \<^verbatim>\<open>parse_arguments\<close>
  throws when no input file is given; every \<^verbatim>\<open>std::exception\<close> is caught,
  printed on \<^verbatim>\<open>std::cerr\<close> after \<^verbatim>\<open>Error: \<close> and turned into
  \<^verbatim>\<open>EXIT_FAILURE\<close>. Of \<^verbatim>\<open>std::cout\<close> the result keeps the lines printed
  from the export on (\<open>closing_output\<close>), not the banner, the progress lines or the usage
  text.
\<close>

record ProcessResult =
  exit_code :: int
  error_output :: "string list"
  closing_output :: "string list"
  artifact :: "string option"

definition main_run :: "(string \<Rightarrow> bool) \<Rightarrow> PlotSpecParams \<Rightarrow> ProcessResult option" where
  "main_run can_open params =
     (if input_filenames params = [] then
        Some \<lparr> exit_code = 1, error_output = [''Error: No input files provided''],
               closing_output = [], artifact = None \<rparr>
      else case calculate_multiple_spectra can_open params of
        None \<Rightarrow> None
      | Some (Inl msg) \<Rightarrow>
          Some \<lparr> exit_code = 1, error_output = [''Error: '' @ msg],
                 closing_output = [], artifact = None \<rparr>
      | Some (Inr spectra) \<Rightarrow>
          (case create_and_export_multiple_plots spectra params of
             None \<Rightarrow> None
           | Some chart \<Rightarrow>
               Some \<lparr> exit_code = 0, error_output = [],
                      closing_output =
                        [export_report chart, ''Processing completed successfully!''],
                      artifact = written_file chart \<rparr>))"

section \<open>Parameter records used as examples\<close>

definition demo_params :: PlotSpecParams where
  "demo_params = default_params \<lparr> x_start := 0, x_end := 2 \<rparr>"

definition huge_grid_params :: PlotSpecParams where
  "huge_grid_params =
     default_params \<lparr> x_start := 2 ^ 53, x_end := 2 ^ 54, interval := 1 \<rparr>"

text \<open>A grid whose bound \<open>x_end + 1e-8\<close> rounds up to \<open>x_end + 1 / 2 ^ 26\<close>.\<close>

definition rounded_bound_params :: PlotSpecParams where
  "rounded_bound_params =
     default_params \<lparr> x_start := 99999999 + 1 / 2 ^ 26, x_end := 10 ^ 8, interval := 1 \<rparr>"

text \<open>Two grids whose first step lands just beyond \<open>x_end\<close>.\<close>

definition fine_grid_params :: PlotSpecParams where
  "fine_grid_params =
     default_params \<lparr> x_start := 0, x_end := 1 / 2 ^ 7 - 1 / 2 ^ 28, interval := 1 / 2 ^ 7 \<rparr>"

definition coarse_grid_params :: PlotSpecParams where
  "coarse_grid_params =
     default_params \<lparr> x_start := 0, x_end := 128 - 1 / 2 ^ 21, interval := 128 \<rparr>"

definition gif_params :: PlotSpecParams where
  "gif_params = demo_params \<lparr> input_filenames := [''a.out''], legend_names := [''a''],
                               output_format := ''gif'', interactive := False \<rparr>"

definition two_point_curve :: SpectrumData where
  "two_point_curve = \<lparr> x_values = [0, 1], y_values = [1, 3], x_label = ''Wavelength (nm)'',
                        y_label = abs_y_label, title = ''Absorption Spectra'' \<rparr>"

section \<open>Names used in the statements\<close>

text \<open>The mode and unit strings that have a branch in \<^verbatim>\<open>calculate_single_spectrum\<close>.\<close>

definition recognised_modes :: "string set" where
  "recognised_modes = {''abs'', ''emi'', ''cd'', ''cdl''}"

definition recognised_units :: "string set" where
  "recognised_units = {''nm'', ''eV'', ''cm-1''}"

text \<open>Every y value of every curve of a chart.\<close>

definition all_y_values :: "SpectrumData list \<Rightarrow> real set" where
  "all_y_values spectra = (\<Union>s \<in> set spectra. set (y_values s))"

text \<open>The output formats with an export branch.\<close>

definition supported_formats :: "string set" where
  "supported_formats = {''svg'', ''eps'', ''pdf'', ''png'', ''jpg'', ''jpeg''}"

section \<open>Properties of the rounding\<close>

lemma rhe_cases:
  "round_half_even q = \<lfloor>q\<rfloor> \<or> round_half_even q = \<lfloor>q\<rfloor> + 1"
  by (simp add: round_half_even_def Let_def)

lemma rhe_error: "\<bar>of_int (round_half_even q) - q\<bar> \<le> 1 / 2"
proof -
  show ?thesis
    by (auto simp: round_half_even_def Let_def abs_if; linarith)
qed

lemma rhe_of_int [simp]: "round_half_even (of_int n) = n"
  by (simp add: round_half_even_def)

lemma rhe_mono:
  assumes "q \<le> q'"
  shows "round_half_even q \<le> round_half_even q'"
proof -
  have f: "\<lfloor>q\<rfloor> \<le> \<lfloor>q'\<rfloor>" using assms by (rule floor_mono)
  show ?thesis
  proof (cases "\<lfloor>q\<rfloor> = \<lfloor>q'\<rfloor>")
    case True
    then show ?thesis using assms
      by (auto simp: round_half_even_def Let_def)
  next
    case False
    then have "\<lfloor>q\<rfloor> + 1 \<le> \<lfloor>q'\<rfloor>" using f by simp
    then show ?thesis using rhe_cases [of q] rhe_cases [of q'] by linarith
  qed
qed

lemma rhe_minus: "round_half_even (- q) = - round_half_even q"
proof (cases "q = of_int \<lfloor>q\<rfloor>")
  case True
  then obtain n where "q = of_int n" ..
  then have "- q = of_int (- n)" by simp
  then show ?thesis using \<open>q = of_int n\<close> by (simp only: rhe_of_int)
next
  case False
  then have lt: "of_int \<lfloor>q\<rfloor> < q" by linarith
  have "q < of_int \<lfloor>q\<rfloor> + 1" by linarith
  then have fl: "\<lfloor>- q\<rfloor> = - \<lfloor>q\<rfloor> - 1" using lt by linarith
  show ?thesis
    using lt by (auto simp: round_half_even_def Let_def fl; linarith)
qed

lemma binary64_ulp_pos [simp]: "0 < binary64_ulp x"
  by (simp add: binary64_ulp_def)

lemma binary64_ulp_nonzero [simp]: "binary64_ulp x \<noteq> 0"
  using binary64_ulp_pos [of x] by linarith

lemma binary64_ulp_nonneg [simp]: "0 \<le> binary64_ulp x"
  using binary64_ulp_pos [of x] by linarith

lemma binary64_exponent_minus [simp]: "binary64_exponent (- x) = binary64_exponent x"
  by (simp add: binary64_exponent_def)

lemma binary64_ulp_minus [simp]: "binary64_ulp (- x) = binary64_ulp x"
  by (simp add: binary64_ulp_def)

lemma binary64_round_zero [simp]: "binary64_round 0 = 0"
  by (simp add: binary64_round_def)

lemma binary64_round_minus: "binary64_round (- x) = - binary64_round x"
  by (simp add: binary64_round_def rhe_minus)

lemma rhe_zero [simp]: "round_half_even 0 = 0"
  using rhe_of_int [of 0] by simp

lemma binary64_round_eq:
  "binary64_round x = of_int (round_half_even (x / binary64_ulp x)) * binary64_ulp x"
  by (simp add: binary64_round_def)

text \<open>The error of one rounding is at most half a unit in the last place.\<close>

lemma binary64_round_error: "\<bar>binary64_round x - x\<bar> \<le> binary64_ulp x / 2"
proof -
  let ?u = "binary64_ulp x"
  have "\<bar>of_int (round_half_even (x / ?u)) - x / ?u\<bar> * ?u \<le> 1 / 2 * ?u"
    by (rule mult_right_mono [OF rhe_error]) (rule less_imp_le, simp)
  moreover have "\<bar>of_int (round_half_even (x / ?u)) - x / ?u\<bar> * ?u
                   = \<bar>of_int (round_half_even (x / ?u)) * ?u - x\<bar>"
  proof -
    have "\<bar>of_int (round_half_even (x / ?u)) - x / ?u\<bar> * ?u
            = \<bar>(of_int (round_half_even (x / ?u)) - x / ?u) * ?u\<bar>"
      by (simp add: abs_mult abs_of_pos)
    also have "(of_int (round_half_even (x / ?u)) - x / ?u) * ?u
                 = of_int (round_half_even (x / ?u)) * ?u - x"
      by (simp add: left_diff_distrib)
    finally show ?thesis .
  qed
  ultimately show ?thesis by (simp add: binary64_round_eq)
qed

text \<open>Exponent and quotient of a positive value.\<close>

lemma exponent_normal:
  assumes "2 powr (- 1022) \<le> x"
  shows "binary64_exponent x = \<lfloor>log 2 x\<rfloor>"
    "2 powr of_int (binary64_exponent x) \<le> x"
    "x < 2 powr (of_int (binary64_exponent x) + 1)"
proof -
  have x: "0 < x" using assms by (rule less_le_trans [rotated]) simp
  have "- 1022 \<le> log 2 x" using assms x by (simp add: le_log_iff)
  then have "- 1022 \<le> \<lfloor>log 2 x\<rfloor>" by (simp add: le_floor_iff)
  then show e: "binary64_exponent x = \<lfloor>log 2 x\<rfloor>"
    using x by (simp add: binary64_exponent_def)
  show "2 powr of_int (binary64_exponent x) \<le> x"
    "x < 2 powr (of_int (binary64_exponent x) + 1)"
    using floor_log_eq_powr_iff [of x 2 "\<lfloor>log 2 x\<rfloor>"] x unfolding e by simp_all
qed

lemma exponent_subnormal:
  assumes "0 < x" "x < 2 powr (- 1022)"
  shows "binary64_exponent x = - 1022"
proof -
  have "log 2 x < - 1022" using assms by (simp add: log_less_iff)
  then have "\<lfloor>log 2 x\<rfloor> < - 1022" by (simp add: floor_less_iff)
  then show ?thesis using assms by (simp add: binary64_exponent_def)
qed

lemma ulp_times: "binary64_ulp x * 2 ^ 52 = 2 powr of_int (binary64_exponent x)"
proof -
  have "(2::real) ^ 52 = 2 powr 52" by simp
  then show ?thesis
    unfolding binary64_ulp_def by (simp only: powr_add [symmetric]) simp
qed

lemma quotient_upper:
  assumes "0 < x"
  shows "x / binary64_ulp x < 2 ^ 53"
proof -
  have "x < 2 powr (of_int (binary64_exponent x) + 1)"
  proof (cases "2 powr (- 1022) \<le> x")
    case True
    then show ?thesis by (rule exponent_normal(3))
  next
    case False
    then have a: "x < 2 powr (- 1022)" by simp
    have e: "binary64_exponent x = - 1022"
      by (rule exponent_subnormal [OF assms a])
    have b: "(2::real) powr (- 1022) \<le> 2 powr (- 1021)" by simp
    have "x < 2 powr (- 1021)" using a b by linarith
    then show ?thesis by (simp add: e)
  qed
  also have "\<dots> = binary64_ulp x * 2 ^ 53"
    using ulp_times [of x] by (simp add: powr_add)
  finally show ?thesis by (simp add: pos_divide_less_eq mult.commute)
qed

lemma quotient_lower:
  assumes "2 powr (- 1022) \<le> x"
  shows "2 ^ 52 \<le> x / binary64_ulp x"
  using exponent_normal(2) [OF assms] ulp_times [of x]
  by (simp add: pos_le_divide_eq mult.commute)

lemma quotient_subnormal:
  assumes "0 < x" "x < 2 powr (- 1022)"
  shows "x / binary64_ulp x < 2 ^ 52"
proof -
  have "binary64_ulp x * 2 ^ 52 = 2 powr (- 1022)"
    unfolding ulp_times exponent_subnormal [OF assms] by simp
  then have "x < binary64_ulp x * 2 ^ 52" using assms(2) by (simp only:)
  then show ?thesis by (simp only: pos_divide_less_eq [OF binary64_ulp_pos] mult.commute)
qed

lemma rhe_numeral_power [simp]: "round_half_even (2 ^ n) = 2 ^ n"
  using rhe_of_int [of "2 ^ n"] by simp

lemma ulp_times_53: "binary64_ulp x * 2 ^ 53 = 2 powr (of_int (binary64_exponent x) + 1)"
  using ulp_times [of x] by (simp add: powr_add)

lemma round_upper:
  assumes "0 < x"
  shows "binary64_round x \<le> 2 powr (of_int (binary64_exponent x) + 1)"
proof -
  have "round_half_even (x / binary64_ulp x) \<le> round_half_even (2 ^ 53)"
    by (rule rhe_mono) (rule less_imp_le [OF quotient_upper [OF assms]])
  then have "real_of_int (round_half_even (x / binary64_ulp x)) \<le> 2 ^ 53"
    by (simp only: rhe_numeral_power) (metis of_int_le_iff of_int_numeral of_int_power)
  then have "real_of_int (round_half_even (x / binary64_ulp x)) * binary64_ulp x
               \<le> 2 ^ 53 * binary64_ulp x"
    by (rule mult_right_mono) simp
  also have "\<dots> = 2 powr (of_int (binary64_exponent x) + 1)"
    by (simp only: ulp_times_53 [symmetric] mult.commute)
  finally show ?thesis by (simp only: binary64_round_eq)
qed

lemma round_lower:
  assumes "2 powr (- 1022) \<le> x"
  shows "2 powr of_int (binary64_exponent x) \<le> binary64_round x"
proof -
  have "round_half_even (2 ^ 52) \<le> round_half_even (x / binary64_ulp x)"
    by (rule rhe_mono) (rule quotient_lower [OF assms])
  then have "2 ^ 52 \<le> real_of_int (round_half_even (x / binary64_ulp x))"
    by (simp only: rhe_numeral_power) (metis of_int_le_iff of_int_numeral of_int_power)
  then have "2 ^ 52 * binary64_ulp x
               \<le> real_of_int (round_half_even (x / binary64_ulp x)) * binary64_ulp x"
    by (rule mult_right_mono) simp
  moreover have "2 ^ 52 * binary64_ulp x = 2 powr of_int (binary64_exponent x)"
    by (simp only: ulp_times [symmetric] mult.commute)
  ultimately show ?thesis by (simp only: binary64_round_eq)
qed

lemma round_nonneg:
  assumes "0 \<le> x"
  shows "0 \<le> binary64_round x"
proof -
  have "0 \<le> x / binary64_ulp x" using assms by simp
  then have "round_half_even 0 \<le> round_half_even (x / binary64_ulp x)" by (rule rhe_mono)
  then show ?thesis by (simp add: binary64_round_eq)
qed

lemma exponent_mono:
  assumes "0 < x" "x \<le> y"
  shows "binary64_exponent x \<le> binary64_exponent y"
proof -
  have "log 2 x \<le> log 2 y" using assms by simp
  then have "\<lfloor>log 2 x\<rfloor> \<le> \<lfloor>log 2 y\<rfloor>" by (rule floor_mono)
  then show ?thesis using assms by (simp add: binary64_exponent_def)
qed

lemma round_mono_pos:
  assumes "0 < x" "x \<le> y"
  shows "binary64_round x \<le> binary64_round y"
proof (cases "binary64_exponent x = binary64_exponent y")
  case True
  then have u: "binary64_ulp x = binary64_ulp y" by (simp add: binary64_ulp_def)
  have "x / binary64_ulp y \<le> y / binary64_ulp y"
    using assms(2) by (simp add: divide_right_mono)
  then have "round_half_even (x / binary64_ulp y) \<le> round_half_even (y / binary64_ulp y)"
    by (rule rhe_mono)
  then have "real_of_int (round_half_even (x / binary64_ulp y)) * binary64_ulp y
               \<le> real_of_int (round_half_even (y / binary64_ulp y)) * binary64_ulp y"
    by (intro mult_right_mono) simp_all
  then show ?thesis by (simp add: binary64_round_eq u)
next
  case False
  then have lt: "binary64_exponent x + 1 \<le> binary64_exponent y"
    using exponent_mono [OF assms] by simp
  moreover have "- 1022 \<le> binary64_exponent x" by (simp add: binary64_exponent_def)
  ultimately have "- 1022 < binary64_exponent y" by linarith
  then have "- 1022 < \<lfloor>log 2 \<bar>y\<bar>\<rfloor>"
    unfolding binary64_exponent_def by (simp add: max_def split: if_splits)
  moreover have "\<bar>y\<bar> = y" using assms by simp
  ultimately have "- 1022 \<le> log 2 y" by linarith
  then have y: "2 powr (- 1022) \<le> y" using assms by (simp add: le_log_iff)
  have "binary64_round x \<le> 2 powr (of_int (binary64_exponent x) + 1)"
    by (rule round_upper [OF assms(1)])
  also have "\<dots> \<le> 2 powr of_int (binary64_exponent y)"
    using lt by (simp add: powr_le_cancel_iff)
  also have "\<dots> \<le> binary64_round y" by (rule round_lower [OF y])
  finally show ?thesis .
qed

lemma binary64_round_mono:
  assumes "x \<le> y"
  shows "binary64_round x \<le> binary64_round y"
proof -
  consider "0 < x" | "x \<le> 0" "0 \<le> y" | "y < 0" by linarith
  then show ?thesis
  proof cases
    case 1
    then show ?thesis by (rule round_mono_pos [OF _ assms])
  next
    case 2
    have "binary64_round x = - binary64_round (- x)" by (simp add: binary64_round_minus)
    moreover have "0 \<le> binary64_round (- x)" using 2 by (intro round_nonneg) simp
    moreover have "0 \<le> binary64_round y" using 2 by (intro round_nonneg)
    ultimately show ?thesis by linarith
  next
    case 3
    have "binary64_round (- y) \<le> binary64_round (- x)"
      using 3 assms by (intro round_mono_pos) simp_all
    then show ?thesis by (simp add: binary64_round_minus)
  qed
qed

lemma exponent_eqI:
  assumes "- 1022 \<le> e" "2 powr of_int e \<le> x" "x < 2 powr (of_int e + 1)"
  shows "binary64_exponent x = e"
proof -
  have x: "0 < x" using assms(2) by (rule less_le_trans [rotated]) simp
  have "\<lfloor>log 2 x\<rfloor> = e"
    using floor_log_eq_powr_iff [of x 2 e] x assms by simp
  then show ?thesis using x assms(1) by (simp add: binary64_exponent_def)
qed

lemma binary64_round_in_binade:
  assumes "- 1022 \<le> e" "2 powr of_int e \<le> x" "x < 2 powr (of_int e + 1)"
  shows "binary64_round x
           = of_int (round_half_even (x / 2 powr (of_int e - 52))) * 2 powr (of_int e - 52)"
  by (simp add: binary64_round_eq binary64_ulp_def exponent_eqI [OF assms])

lemma binary64_round_subnormal:
  assumes "0 < x" "x < 2 powr (- 1022)"
  shows "binary64_round x
           = of_int (round_half_even (x / 2 powr (- 1074))) * 2 powr (- 1074)"
  by (simp add: binary64_round_eq binary64_ulp_def exponent_subnormal [OF assms])

text \<open>A significand of at most 53 bits at an admissible exponent is kept by the rounding.\<close>

lemma binary64_round_exact_pos:
  assumes e: "- 1022 \<le> e" and N: "0 < N" "N < 2 ^ 53" and n: "2 ^ 52 \<le> N \<or> e = - 1022"
  shows "binary64_round (of_int N * 2 powr (of_int e - 52)) = of_int N * 2 powr (of_int e - 52)"
proof -
  let ?u = "2 powr (real_of_int e - 52)"
  let ?y = "real_of_int N * ?u"
  have u: "?u * 2 ^ 52 = 2 powr of_int e"
  proof -
    have "(2::real) ^ 52 = 2 powr 52" by simp
    then show ?thesis by (simp only: powr_add [symmetric]) simp
  qed
  have u53: "?u * 2 ^ 53 = 2 powr (of_int e + 1)"
    using u by (simp add: powr_add)
  have y: "0 < ?y" using N(1) by simp
  have "real_of_int N < 2 ^ 53" using N(2) by (metis of_int_less_iff of_int_numeral of_int_power)
  then have "?y < 2 ^ 53 * ?u" by (intro mult_strict_right_mono) simp_all
  then have hi: "?y < 2 powr (of_int e + 1)" using u53 by (simp only: mult.commute)
  have ex: "binary64_exponent ?y = e"
  proof (cases "2 ^ 52 \<le> N")
    case True
    then have "2 ^ 52 \<le> real_of_int N" by (metis of_int_le_iff of_int_numeral of_int_power)
    then have "2 ^ 52 * ?u \<le> ?y" by (intro mult_right_mono) simp_all
    then have "2 powr of_int e \<le> ?y" using u by (simp only: mult.commute)
    then show ?thesis by (rule exponent_eqI [OF e _ hi])
  next
    case False
    then have e': "e = - 1022" and "N < 2 ^ 52" using n by simp_all
    then have "real_of_int N < 2 ^ 52" by (metis of_int_less_iff of_int_numeral of_int_power)
    then have "?y < 2 ^ 52 * ?u" by (intro mult_strict_right_mono) simp_all
    then have "?y < 2 powr of_int e" using u by (simp only: mult.commute)
    then have "?y < 2 powr (- 1022)" by (simp add: e')
    from exponent_subnormal [OF y this] show ?thesis by (simp add: e')
  qed
  show ?thesis
    by (simp add: binary64_round_eq binary64_ulp_def ex)
qed

lemma binary64_round_power_of_two:
  assumes "- 1022 \<le> e"
  shows "binary64_round (2 powr of_int e) = 2 powr of_int e"
proof -
  have "(2::real) ^ 52 = 2 powr 52" by simp
  then have "of_int (2 ^ 52) * 2 powr (of_int e - 52) = (2::real) powr of_int e"
    by (simp only: of_int_power of_int_numeral powr_add [symmetric]) simp
  then show ?thesis
    using binary64_round_exact_pos [OF assms, of "2 ^ 52"] by simp
qed

lemma binary64_round_idem_pos:
  assumes "0 < x"
  shows "binary64_round (binary64_round x) = binary64_round x"
proof -
  define e where "e = binary64_exponent x"
  define N where "N = round_half_even (x / binary64_ulp x)"
  have e: "- 1022 \<le> e" by (simp add: e_def binary64_exponent_def)
  have r: "binary64_round x = of_int N * 2 powr (of_int e - 52)"
    by (simp add: binary64_round_eq N_def e_def binary64_ulp_def)
  have "round_half_even 0 \<le> N"
    unfolding N_def by (rule rhe_mono) (use assms in simp)
  then have N0: "0 \<le> N" by simp
  have "N \<le> round_half_even (2 ^ 53)"
    unfolding N_def by (rule rhe_mono) (rule less_imp_le [OF quotient_upper [OF assms]])
  then have N53: "N \<le> 2 ^ 53" by (simp only: rhe_numeral_power)
  have low: "2 ^ 52 \<le> N \<or> e = - 1022"
  proof (cases "2 powr (- 1022) \<le> x")
    case True
    have "round_half_even (2 ^ 52) \<le> N"
      unfolding N_def by (rule rhe_mono) (rule quotient_lower [OF True])
    then show ?thesis by (simp only: rhe_numeral_power) simp
  next
    case False
    then show ?thesis using exponent_subnormal [OF assms] by (simp add: e_def)
  qed
  consider "N = 0" | "0 < N" "N < 2 ^ 53" | "N = 2 ^ 53" using N0 N53 by linarith
  then show ?thesis
  proof cases
    case 1
    then show ?thesis by (simp add: r)
  next
    case 2
    then show ?thesis
      unfolding r by (rule binary64_round_exact_pos [OF e _ _ low])
  next
    case 3
    have "(2::real) ^ 53 = 2 powr 53" by simp
    then have "binary64_round x = 2 powr of_int (e + 1)"
      unfolding r 3
      by (simp only: of_int_power of_int_numeral powr_add [symmetric]) (simp add: add.commute)
    moreover have "- 1022 \<le> e + 1" using e by simp
    ultimately show ?thesis by (simp only: binary64_round_power_of_two)
  qed
qed

lemma binary64_round_idem [simp]: "binary64_round (binary64_round x) = binary64_round x"
proof -
  consider "0 < x" | "x = 0" | "x < 0" by linarith
  then show ?thesis
  proof cases
    case 1
    then show ?thesis by (rule binary64_round_idem_pos)
  next
    case 2
    then show ?thesis by simp
  next
    case 3
    then have "binary64_round (binary64_round (- x)) = binary64_round (- x)"
      by (intro binary64_round_idem_pos) simp
    then show ?thesis by (simp add: binary64_round_minus)
  qed
qed

text \<open>The relative form of the error bound.\<close>

lemma binary64_ulp_bound:
  assumes "x \<noteq> 0"
  shows "binary64_ulp x \<le> \<bar>x\<bar> / 2 ^ 52 + 2 powr (- 1074)"
proof -
  have ax: "binary64_ulp \<bar>x\<bar> = binary64_ulp x"
    by (simp add: binary64_ulp_def binary64_exponent_def)
  show ?thesis
  proof (cases "2 powr (- 1022) \<le> \<bar>x\<bar>")
    case True
    have "binary64_ulp \<bar>x\<bar> * 2 ^ 52 \<le> \<bar>x\<bar>"
      using exponent_normal(2) [OF True] by (simp only: ulp_times)
    then have "binary64_ulp x \<le> \<bar>x\<bar> / 2 ^ 52"
      unfolding ax by (simp add: pos_le_divide_eq)
    moreover have "0 \<le> (2::real) powr (- 1074)" by simp
    ultimately show ?thesis by linarith
  next
    case False
    then have "\<bar>x\<bar> < 2 powr (- 1022)" by simp
    moreover have "0 < \<bar>x\<bar>" using assms by simp
    ultimately have "binary64_exponent \<bar>x\<bar> = - 1022" by (intro exponent_subnormal)
    then have "binary64_ulp \<bar>x\<bar> = 2 powr (- 1074)" by (simp add: binary64_ulp_def)
    then show ?thesis unfolding ax by simp
  qed
qed

lemma binary64_round_rel_error:
  "\<bar>binary64_round x - x\<bar> \<le> \<bar>x\<bar> / 2 ^ 53 + 2 powr (- 1075)"
proof (cases "x = 0")
  case True
  then show ?thesis by simp
next
  case False
  have "(2::real) powr (- 1074) / 2 = 2 powr (- 1075)"
    using powr_add [of "2::real" "- 1075" 1] by simp
  then show ?thesis
    using binary64_round_error [of x] binary64_ulp_bound [OF False] by (simp add: field_simps)
qed

section \<open>The x grid: iterates, progress, end point\<close>

subsection \<open>Rounding in a known binade\<close>

lemma binary64_round_large:
  assumes "2 ^ k \<le> x" "x < 2 ^ Suc k" "52 \<le> k"
  shows "binary64_round x = of_int (round_half_even (x / 2 ^ (k - 52))) * 2 ^ (k - 52)"
proof -
  have a: "2 powr of_int (int k) = (2::real) ^ k" by (simp add: powr_realpow)
  have b: "2 powr (of_int (int k) + 1) = (2::real) ^ Suc k"
    using powr_realpow [of 2 "Suc k"] by (simp add: add.commute)
  have "real_of_int (int k) - 52 = real (k - 52)"
    using assms(3) by (simp add: of_nat_diff)
  then have "2 powr (real_of_int (int k) - 52) = (2::real) powr real (k - 52)"
    by (simp only:)
  also have "\<dots> = 2 ^ (k - 52)"
    by (rule powr_realpow) simp
  finally have u: "2 powr (real_of_int (int k) - 52) = (2::real) ^ (k - 52)" .
  have "binary64_round x = of_int (round_half_even (x / 2 powr (of_int (int k) - 52)))
          * 2 powr (of_int (int k) - 52)"
    by (rule binary64_round_in_binade) (use assms a b in simp_all)
  then show ?thesis unfolding u .
qed

lemma binary64_round_mid:
  assumes "2 ^ k \<le> x" "x < 2 ^ Suc k" "k \<le> 52"
  shows "binary64_round x = of_int (round_half_even (x * 2 ^ (52 - k))) / 2 ^ (52 - k)"
proof -
  have a: "2 powr of_int (int k) = (2::real) ^ k" by (simp add: powr_realpow)
  have b: "2 powr (of_int (int k) + 1) = (2::real) ^ Suc k"
    using powr_realpow [of 2 "Suc k"] by (simp add: add.commute)
  have "real_of_int (int k) - 52 = - real (52 - k)"
    using assms(3) by (simp add: of_nat_diff)
  then have "2 powr (real_of_int (int k) - 52) = (2::real) powr (- real (52 - k))"
    by (simp only:)
  also have "\<dots> = 1 / 2 powr real (52 - k)"
    by (rule powr_minus_divide)
  also have "(2::real) powr real (52 - k) = 2 ^ (52 - k)"
    by (rule powr_realpow) simp
  finally have u: "2 powr (real_of_int (int k) - 52) = 1 / (2::real) ^ (52 - k)" .
  have "binary64_round x = of_int (round_half_even (x / 2 powr (of_int (int k) - 52)))
          * 2 powr (of_int (int k) - 52)"
    by (rule binary64_round_in_binade) (use assms a b in simp_all)
  then show ?thesis unfolding u by simp
qed

lemma binary64_round_small:
  assumes "1 / 2 ^ k \<le> x" "x < 2 / 2 ^ k" "k \<le> 1022"
  shows "binary64_round x = of_int (round_half_even (x * 2 ^ (k + 52))) / 2 ^ (k + 52)"
proof -
  have a: "2 powr of_int (- int k) = 1 / (2::real) ^ k"
    by (simp add: powr_minus_divide powr_realpow)
  have b: "2 powr (of_int (- int k) + 1) = 2 / (2::real) ^ k"
    using powr_add [of 2 "- real k" 1] by (simp add: powr_minus_divide powr_realpow)
  have "real_of_int (- int k) - 52 = - real (k + 52)" by simp
  then have "2 powr (real_of_int (- int k) - 52) = (2::real) powr (- real (k + 52))"
    by (simp only:)
  also have "\<dots> = 1 / 2 powr real (k + 52)"
    by (rule powr_minus_divide)
  also have "(2::real) powr real (k + 52) = 2 ^ (k + 52)"
    by (rule powr_realpow) simp
  finally have u: "2 powr (real_of_int (- int k) - 52) = 1 / (2::real) ^ (k + 52)" .
  have "binary64_round x = of_int (round_half_even (x / 2 powr (of_int (- int k) - 52)))
          * 2 powr (of_int (- int k) - 52)"
    by (rule binary64_round_in_binade) (use assms a b in simp_all)
  then show ?thesis unfolding u by simp
qed

lemma binary64_round_absorbs: "binary64_round (2 ^ 53 + 1) = 2 ^ 53"
  using binary64_round_large [of 53 "2 ^ 53 + 1"]
  by (simp add: round_half_even_def Let_def)

lemma binary64_tolerance: "binary64_round (1 / 10 ^ 8) = 6044629098073146 / 2 ^ 79"
proof -
  have "round_half_even (1 / 10 ^ 8 * 2 ^ 79) = 6044629098073146"
    by (simp add: round_half_even_def Let_def)
  then show ?thesis
    using binary64_round_small [of 27 "1 / 10 ^ 8"] by simp
qed

subsection \<open>The loop and the iterates of its body\<close>

lemma grid_next_funpow: "(grid_next i ^^ k) (grid_next i c) = (grid_next i ^^ Suc k) c"
  by (simp add: funpow_swap1)

lemma x_grid_loop_returns:
  assumes "\<And>k. k < n \<Longrightarrow> (grid_next i ^^ k) c \<le> b" "\<not> (grid_next i ^^ n) c \<le> b"
  shows "x_grid_loop b i c acc = Some (acc @ map (\<lambda>k. (grid_next i ^^ k) c) [0..<n])"
  using assms
proof (induction n arbitrary: c acc)
  case 0
  then show ?case by (subst x_grid_loop.simps) simp
next
  case (Suc n)
  have cb: "c \<le> b" using Suc.prems(1) [of 0] by simp
  have 1: "(grid_next i ^^ k) (grid_next i c) \<le> b" if "k < n" for k
    using Suc.prems(1) [of "Suc k"] that by (simp add: funpow_swap1)
  have 2: "\<not> (grid_next i ^^ n) (grid_next i c) \<le> b"
    using Suc.prems(2) by (simp add: funpow_swap1)
  have "x_grid_loop b i c acc = x_grid_loop b i (grid_next i c) (acc @ [c])"
    using cb by (subst x_grid_loop.simps) (simp add: grid_next_def)
  also have "\<dots> = Some ((acc @ [c]) @ map (\<lambda>k. (grid_next i ^^ k) (grid_next i c)) [0..<n])"
    by (rule Suc.IH [OF 1 2])
  also have "(acc @ [c]) @ map (\<lambda>k. (grid_next i ^^ k) (grid_next i c)) [0..<n]
               = acc @ map (\<lambda>k. (grid_next i ^^ k) c) [0..<Suc n]"
    by (simp add: upt_conv_Cons map_Suc_upt [symmetric] grid_next_funpow
        del: upt_Suc funpow.simps)
  finally show ?case .
qed

lemma x_grid_loop_leaves:
  assumes ret: "x_grid_loop b i c acc = Some ys"
  shows "\<exists>n. \<not> (grid_next i ^^ n) c \<le> b"
proof -
  have "\<exists>n. \<not> (grid_next i ^^ n) c \<le> b"
  proof (rule x_grid_loop.raw_induct
      [where P = "\<lambda>b i c acc ys. \<exists>n. \<not> (grid_next i ^^ n) c \<le> b", OF _ ret])
    fix loop :: "real \<Rightarrow> real \<Rightarrow> real \<Rightarrow> real list \<Rightarrow> real list option"
    fix b' i' z :: real and acc ys :: "real list"
    assume IH: "\<And>b' i' c acc ys. loop b' i' c acc = Some ys
                   \<Longrightarrow> \<exists>n. \<not> (grid_next i' ^^ n) c \<le> b'"
      and body: "(if z \<le> b' then loop b' i' (binary64_round (z + i')) (acc @ [z])
                  else Some acc) = Some ys"
    show "\<exists>n. \<not> (grid_next i' ^^ n) z \<le> b'"
    proof (cases "z \<le> b'")
      case True
      then have "loop b' i' (grid_next i' z) (acc @ [z]) = Some ys"
        using body by (simp add: grid_next_def)
      from IH [OF this] obtain n where "\<not> (grid_next i' ^^ n) (grid_next i' z) \<le> b'" ..
      then have "\<not> (grid_next i' ^^ Suc n) z \<le> b'" by (simp add: funpow_swap1)
      then show ?thesis ..
    next
      case False
      then have "\<not> (grid_next i' ^^ 0) z \<le> b'" by simp
      then show ?thesis ..
    qed
  qed
  then show ?thesis .
qed

lemma x_grid_loop_result:
  assumes "x_grid_loop b i c acc = Some ys"
  shows "\<exists>n. ys = acc @ map (\<lambda>k. (grid_next i ^^ k) c) [0..<n]
           \<and> \<not> (grid_next i ^^ n) c \<le> b
           \<and> (\<forall>k<n. (grid_next i ^^ k) c \<le> b)"
proof -
  from x_grid_loop_leaves [OF assms] obtain m where m: "\<not> (grid_next i ^^ m) c \<le> b" ..
  define n where "n = (LEAST n. \<not> (grid_next i ^^ n) c \<le> b)"
  have 1: "\<not> (grid_next i ^^ n) c \<le> b"
    unfolding n_def using m by (rule LeastI)
  have 2: "(grid_next i ^^ k) c \<le> b" if "k < n" for k
    using that unfolding n_def using not_less_Least by blast
  have "ys = acc @ map (\<lambda>k. (grid_next i ^^ k) c) [0..<n]"
    using x_grid_loop_returns [of n i c b acc, OF 2 1] assms by simp
  then show ?thesis using 1 2 by blast
qed

lemma x_grid_loop_Some_iff:
  "(\<exists>ys. x_grid_loop b i c acc = Some ys) \<longleftrightarrow> (\<exists>n. \<not> (grid_next i ^^ n) c \<le> b)"
proof
  assume "\<exists>ys. x_grid_loop b i c acc = Some ys"
  then show "\<exists>n. \<not> (grid_next i ^^ n) c \<le> b" using x_grid_loop_leaves by blast
next
  assume "\<exists>n. \<not> (grid_next i ^^ n) c \<le> b"
  then obtain m where m: "\<not> (grid_next i ^^ m) c \<le> b" ..
  define n where "n = (LEAST n. \<not> (grid_next i ^^ n) c \<le> b)"
  have 1: "\<not> (grid_next i ^^ n) c \<le> b"
    unfolding n_def using m by (rule LeastI)
  have 2: "(grid_next i ^^ k) c \<le> b" if "k < n" for k
    using that unfolding n_def using not_less_Least by blast
  show "\<exists>ys. x_grid_loop b i c acc = Some ys"
    using x_grid_loop_returns [of n i c b acc, OF 2 1] by simp
qed

lemma x_grid_loop_None_iff:
  "x_grid_loop b i c acc = None \<longleftrightarrow> (\<forall>n. (grid_next i ^^ n) c \<le> b)"
  using x_grid_loop_Some_iff [of b i c acc] by auto

subsection \<open>Progress of the body\<close>

lemma positive_double_lower:
  assumes "0 < x" "binary64_round x = x"
  shows "2 powr (- 1074) \<le> x"
proof -
  let ?N = "round_half_even (x / binary64_ulp x)"
  have x: "x = of_int ?N * binary64_ulp x"
    using binary64_round_eq [of x] assms(2) by simp
  have "0 < of_int ?N * binary64_ulp x" using assms(1) x by simp
  then have "0 < real_of_int ?N"
    using binary64_ulp_pos [of x] by (simp add: zero_less_mult_iff del: binary64_ulp_pos)
  then have "0 < ?N" by simp
  then have "1 \<le> ?N" by linarith
  then have N: "1 \<le> real_of_int ?N" by simp
  have "- 1022 \<le> binary64_exponent x" by (simp add: binary64_exponent_def)
  then have "(- 1074::real) \<le> of_int (binary64_exponent x) - 52" by linarith
  then have u: "2 powr (- 1074) \<le> binary64_ulp x"
    unfolding binary64_ulp_def by (rule powr_mono) simp
  have "binary64_ulp x \<le> of_int ?N * binary64_ulp x"
    using N mult_right_mono [of 1 "real_of_int ?N" "binary64_ulp x"] by simp
  then show ?thesis using u x by linarith
qed

lemma grid_next_progress:
  assumes "0 < i" "binary64_round i = i" "\<bar>c\<bar> \<le> 2 ^ 51 * i"
  shows "c + i / 8 \<le> grid_next i c"
proof -
  have low: "2 powr (- 1074) \<le> i" by (rule positive_double_lower [OF assms(1,2)])
  have "(2::real) powr (- 1075) = 2 powr (- 1074) * 2 powr (- 1)"
    unfolding powr_add [symmetric] by simp
  also have "\<dots> = 2 powr (- 1074) / 2" by (simp add: powr_minus_divide)
  finally have tiny: "2 powr (- 1075) \<le> i / 2" using low by simp
  have "\<bar>c + i\<bar> \<le> 2 ^ 51 * i + i" using assms(1,3) by linarith
  then have "\<bar>c + i\<bar> / 2 ^ 53 \<le> (2 ^ 51 * i + i) / 2 ^ 53"
    by (rule divide_right_mono) simp
  also have "\<dots> = i / 4 + i / 2 ^ 53" by (simp add: add_divide_distrib)
  also have "\<dots> \<le> i / 4 + i / 8" using assms(1) by (simp add: field_simps)
  finally have rel: "\<bar>c + i\<bar> / 2 ^ 53 \<le> i / 4 + i / 8" .
  have "\<bar>binary64_round (c + i) - (c + i)\<bar> \<le> \<bar>c + i\<bar> / 2 ^ 53 + 2 powr (- 1075)"
    by (rule binary64_round_rel_error)
  then show ?thesis unfolding grid_next_def using rel tiny by linarith
qed

lemma grid_leaves_bound:
  assumes "0 < i" "binary64_round i = i" "max \<bar>c\<bar> \<bar>b\<bar> \<le> 2 ^ 51 * i"
  shows "\<exists>n. \<not> (grid_next i ^^ n) c \<le> b"
proof (rule ccontr)
  assume "\<not> (\<exists>n. \<not> (grid_next i ^^ n) c \<le> b)"
  then have below: "(grid_next i ^^ n) c \<le> b" for n by blast
  have grow: "c + real n * (i / 8) \<le> (grid_next i ^^ n) c" for n
  proof (induction n)
    case 0
    then show ?case by simp
  next
    case (Suc n)
    let ?z = "(grid_next i ^^ n) c"
    have "0 \<le> real n * (i / 8)" using assms(1) by simp
    then have "c \<le> ?z" using Suc.IH by linarith
    moreover have "?z \<le> b" by (rule below)
    ultimately have "\<bar>?z\<bar> \<le> max \<bar>c\<bar> \<bar>b\<bar>" by (simp add: abs_if max_def)
    then have "\<bar>?z\<bar> \<le> 2 ^ 51 * i" using assms(3) by linarith
    from grid_next_progress [OF assms(1,2) this] Suc.IH show ?case
      by (simp add: algebra_simps add_divide_distrib)
  qed
  have "0 < i / 8" using assms(1) by simp
  from reals_Archimedean3 [OF this] obtain n where "b - c < real n * (i / 8)" by blast
  moreover have "c + real n * (i / 8) \<le> (grid_next i ^^ n) c" by (rule grow)
  moreover have "(grid_next i ^^ n) c \<le> b" by (rule below)
  ultimately show False by linarith
qed

lemma grid_next_mono:
  assumes "0 \<le> i" "binary64_round c = c"
  shows "c \<le> grid_next i c"
  using binary64_round_mono [of c "c + i"] assms by (simp add: grid_next_def)

lemma grid_next_anti:
  assumes "i \<le> 0" "binary64_round c = c"
  shows "grid_next i c \<le> c"
  using binary64_round_mono [of "c + i" c] assms by (simp add: grid_next_def)

lemma grid_iterate_double:
  assumes "binary64_round c = c"
  shows "binary64_round ((grid_next i ^^ n) c) = (grid_next i ^^ n) c"
  using assms by (cases n) (simp_all add: grid_next_def)

lemma grid_never_leaves:
  assumes "i \<le> 0" "binary64_round c = c" "c \<le> b"
  shows "(grid_next i ^^ n) c \<le> b"
proof -
  have "(grid_next i ^^ n) c \<le> c"
  proof (induction n)
    case 0
    then show ?case by simp
  next
    case (Suc n)
    have "grid_next i ((grid_next i ^^ n) c) \<le> (grid_next i ^^ n) c"
      by (rule grid_next_anti [OF assms(1) grid_iterate_double [OF assms(2)]])
    then show ?case using Suc.IH by simp
  qed
  then show ?thesis using assms(3) by linarith
qed

lemma tolerance_above: "1 / 10 ^ 8 \<le> binary64_round (1 / 10 ^ 8)"
  unfolding binary64_tolerance by simp

lemma x_grid_bound_above:
  assumes "binary64_round x = x" "x \<le> x_end p + 1 / 10 ^ 8"
  shows "x \<le> x_grid_bound p"
proof -
  have "x \<le> x_end p + binary64_round (1 / 10 ^ 8)" using assms(2) tolerance_above by linarith
  from binary64_round_mono [OF this] show ?thesis
    unfolding x_grid_bound_def assms(1) .
qed

lemma x_grid_bound_below:
  assumes "binary64_round x = x" "x_end p + 1 / 2 ^ 26 \<le> x"
  shows "x_grid_bound p \<le> x"
proof -
  have "binary64_round (1 / 10 ^ 8) \<le> 1 / 2 ^ 26" unfolding binary64_tolerance by simp
  then have "x_end p + binary64_round (1 / 10 ^ 8) \<le> x" using assms(2) by linarith
  from binary64_round_mono [OF this] show ?thesis
    unfolding x_grid_bound_def assms(1) .
qed

subsection \<open>Concrete doubles\<close>

lemma rhe_numeral [simp]: "round_half_even (numeral n) = numeral n"
  using rhe_of_int [of "numeral n"] by simp

lemma rhe_one [simp]: "round_half_even 1 = 1"
  using rhe_of_int [of 1] by simp

lemma round_keeps_mid:
  assumes "2 ^ k \<le> x" "x < 2 ^ Suc k" "k \<le> 52" "x * 2 ^ (52 - k) = of_int N"
  shows "binary64_round x = x"
proof -
  have "binary64_round x = of_int N / 2 ^ (52 - k)"
    unfolding binary64_round_mid [OF assms(1-3)] assms(4) by simp
  also have "\<dots> = x" unfolding assms(4) [symmetric] by simp
  finally show ?thesis .
qed

lemma round_keeps_small:
  assumes "1 / 2 ^ k \<le> x" "x < 2 / 2 ^ k" "k \<le> 1022" "x * 2 ^ (k + 52) = of_int N"
  shows "binary64_round x = x"
proof -
  have "binary64_round x = of_int N / 2 ^ (k + 52)"
    unfolding binary64_round_small [OF assms(1-3)] assms(4) by simp
  also have "\<dots> = x" unfolding assms(4) [symmetric] by simp
  finally show ?thesis .
qed

lemma round_keeps_large:
  assumes "2 ^ k \<le> x" "x < 2 ^ Suc k" "52 \<le> k" "x / 2 ^ (k - 52) = of_int N"
  shows "binary64_round x = x"
proof -
  have "binary64_round x = of_int N * 2 ^ (k - 52)"
    unfolding binary64_round_large [OF assms(1-3)] assms(4) by simp
  also have "\<dots> = x" unfolding assms(4) [symmetric] by simp
  finally show ?thesis .
qed

lemma round_1 [simp]: "binary64_round 1 = 1"
  by (rule round_keeps_mid [where k = 0 and N = "2 ^ 52"]) simp_all

lemma round_2 [simp]: "binary64_round 2 = 2"
  by (rule round_keeps_mid [where k = 1 and N = "2 ^ 52"]) simp_all

lemma round_3 [simp]: "binary64_round 3 = 3"
  by (rule round_keeps_mid [where k = 1 and N = "3 * 2 ^ 51"]) simp_all

lemma round_200 [simp]: "binary64_round 200 = 200"
  by (rule round_keeps_mid [where k = 7 and N = "200 * 2 ^ 45"]) simp_all

lemma round_1000 [simp]: "binary64_round 1000 = 1000"
  by (rule round_keeps_mid [where k = 9 and N = "1000 * 2 ^ 43"]) simp_all

lemma round_1001 [simp]: "binary64_round 1001 = 1001"
  by (rule round_keeps_mid [where k = 9 and N = "1001 * 2 ^ 43"]) simp_all

lemma round_2p53 [simp]: "binary64_round (2 ^ 53) = 2 ^ 53"
  by (rule round_keeps_large [where k = 53 and N = "2 ^ 52"]) simp_all

lemma round_2p54 [simp]: "binary64_round (2 ^ 54) = 2 ^ 54"
  by (rule round_keeps_large [where k = 54 and N = "2 ^ 52"]) simp_all

lemma is_doubleD: "is_double x \<Longrightarrow> binary64_round x = x"
  by (simp add: is_double_def)

lemma is_doubleI: "binary64_round x = x \<Longrightarrow> \<bar>x\<bar> \<le> 2 ^ 1023 \<Longrightarrow> is_double x"
  by (simp add: is_double_def DBL_MAX_def)

lemma generate_x_values_returns:
  assumes "0 < interval p" "is_double (interval p)"
    "max \<bar>x_start p\<bar> \<bar>x_grid_bound p\<bar> \<le> 2 ^ 51 * interval p"
  shows "\<exists>xs. generate_x_values p = Some xs"
  unfolding generate_x_values_def x_grid_loop_Some_iff
  by (rule grid_leaves_bound [OF assms(1) is_doubleD [OF assms(2)] assms(3)])

lemma generate_x_values_never:
  assumes "interval p \<le> 0" "is_double (x_start p)" "x_start p \<le> x_end p + 1 / 10 ^ 8"
  shows "generate_x_values p = None"
  unfolding generate_x_values_def x_grid_loop_None_iff
proof
  fix n
  have "x_start p \<le> x_grid_bound p"
    by (rule x_grid_bound_above [OF is_doubleD [OF assms(2)] assms(3)])
  then show "(grid_next (interval p) ^^ n) (x_start p) \<le> x_grid_bound p"
    by (rule grid_never_leaves [OF assms(1) is_doubleD [OF assms(2)]])
qed

text \<open>
  Claim C10, amended. With binary64 additions the grid loop returns when the interval is
  positive and not too small beside the ends of the range: \<open>2 ^ 51\<close> times the interval is at
  least \<open>|x_start|\<close> and at least the absolute value of the loop bound (then every addition
  moves \<^verbatim>\<open>current_x\<close> up by an eighth of the interval or more). It never returns when
  the interval is zero or negative and \<open>x_start \<le> x_end + 1e-8\<close>.
\<close>

theorem x_grid_termination:
  "(0 < interval p \<and> is_double (interval p) \<and>
      max \<bar>x_start p\<bar> \<bar>x_grid_bound p\<bar> \<le> 2 ^ 51 * interval p
      \<longrightarrow> (\<exists>xs. generate_x_values p = Some xs)) \<and>
   (interval p \<le> 0 \<and> is_double (x_start p) \<and> x_start p \<le> x_end p + 1 / 10 ^ 8
      \<longrightarrow> generate_x_values p = None)"
  using generate_x_values_returns [of p] generate_x_values_never [of p] by blast

lemma default_bound: "1000 \<le> x_grid_bound default_params" "x_grid_bound default_params \<le> 1001"
proof -
  show "1000 \<le> x_grid_bound default_params"
    by (rule x_grid_bound_above) (simp_all add: default_params_def)
  show "x_grid_bound default_params \<le> 1001"
    by (rule x_grid_bound_below) (simp_all add: default_params_def)
qed

lemma demo_bound: "2 \<le> x_grid_bound demo_params" "x_grid_bound demo_params \<le> 3"
proof -
  show "2 \<le> x_grid_bound demo_params"
    by (rule x_grid_bound_above) (simp_all add: demo_params_def default_params_def)
  show "x_grid_bound demo_params \<le> 3"
    by (rule x_grid_bound_below) (simp_all add: demo_params_def default_params_def)
qed

lemma is_double_small [simp]: "is_double 0" "is_double 1" "is_double 2"
  by (rule is_doubleI; simp)+

theorem x_grid_termination_witness:
  "(\<exists>xs. generate_x_values default_params = Some xs) \<and>
   generate_x_values (default_params \<lparr> x_start := 0, x_end := 2, interval := 0 \<rparr>) = None"
proof -
  have "max \<bar>x_start default_params\<bar> \<bar>x_grid_bound default_params\<bar>
          \<le> 2 ^ 51 * interval default_params"
    using default_bound by (simp add: default_params_def)
  then have 1: "\<exists>xs. generate_x_values default_params = Some xs"
    using x_grid_termination [of default_params, THEN conjunct1]
    by (simp add: default_params_def)
  have 2: "generate_x_values (default_params \<lparr> x_start := 0, x_end := 2, interval := 0 \<rparr>) = None"
    using x_grid_termination
      [of "default_params \<lparr> x_start := 0, x_end := 2, interval := 0 \<rparr>", THEN conjunct2]
    by simp
  show ?thesis using 1 2 by (rule conjI)
qed

lemma funpow_fixed_point: "f x = x \<Longrightarrow> (f ^^ n) x = x"
  by (induction n) simp_all

lemma huge_grid_stalls: "generate_x_values (huge_grid_params \<lparr> mode := m \<rparr>) = None"
  unfolding generate_x_values_def x_grid_loop_None_iff
proof
  fix n
  have b: "2 ^ 54 \<le> x_grid_bound (huge_grid_params \<lparr> mode := m \<rparr>)"
    by (rule x_grid_bound_above, rule round_2p54) (simp add: huge_grid_params_def)
  have "grid_next 1 (2 ^ 53) = 2 ^ 53"
    unfolding grid_next_def by (rule binary64_round_absorbs)
  then have "(grid_next 1 ^^ n) (2 ^ 53) = 2 ^ 53"
    by (rule funpow_fixed_point)
  then show "(grid_next (interval (huge_grid_params \<lparr> mode := m \<rparr>)) ^^ n)
               (x_start (huge_grid_params \<lparr> mode := m \<rparr>))
             \<le> x_grid_bound (huge_grid_params \<lparr> mode := m \<rparr>)"
    using b by (simp add: huge_grid_params_def)
qed

text \<open>
  Claim C10 as stated fails: with \<open>x_start = 2 ^ 53\<close>, \<open>x_end = 2 ^ 54\<close> and
  \<open>interval = 1\<close>, all three finite and the interval positive, the sum \<open>2 ^ 53 + 1\<close> rounds
  back to \<open>2 ^ 53\<close>, \<^verbatim>\<open>current_x\<close> never changes and the loop never returns.
\<close>

theorem x_grid_binary64_counterexample:
  "generate_x_values huge_grid_params = None \<and>
   0 < interval huge_grid_params \<and>
   is_double (x_start huge_grid_params) \<and> is_double (x_end huge_grid_params) \<and>
   is_double (interval huge_grid_params)"
proof -
  have "generate_x_values huge_grid_params = None"
    using huge_grid_stalls [of "mode huge_grid_params"] by simp
  moreover have "is_double (2 ^ 53)"
    by (rule is_doubleI, rule round_2p53) simp
  moreover have "is_double (2 ^ 54)"
    by (rule is_doubleI, rule round_2p54) simp
  ultimately show ?thesis by (simp add: huge_grid_params_def default_params_def)
qed

subsection \<open>Shape of a returned grid\<close>

lemma grid_iterates_increase:
  assumes i: "0 \<le> i" and c: "binary64_round c = c"
  shows "(grid_next i ^^ k) c \<le> (grid_next i ^^ (k + m)) c"
proof (induction m)
  case 0
  then show ?case by simp
next
  case (Suc m)
  have "(grid_next i ^^ (k + m)) c \<le> grid_next i ((grid_next i ^^ (k + m)) c)"
    by (rule grid_next_mono [OF i grid_iterate_double [OF c]])
  then show ?case using Suc.IH by simp
qed

lemma grid_iterates_stuck:
  assumes "(grid_next i ^^ Suc k) c = (grid_next i ^^ k) c"
  shows "(grid_next i ^^ (k + m)) c = (grid_next i ^^ k) c"
proof (induction m)
  case 0
  then show ?case by simp
next
  case (Suc m)
  have "(grid_next i ^^ (k + Suc m)) c = grid_next i ((grid_next i ^^ (k + m)) c)" by simp
  also have "\<dots> = grid_next i ((grid_next i ^^ k) c)" unfolding Suc.IH ..
  also have "\<dots> = (grid_next i ^^ k) c" using assms by simp
  finally show ?case .
qed

lemma grid_iterates_strict:
  assumes i: "0 \<le> i" and c: "binary64_round c = c"
    and below: "(grid_next i ^^ k) c \<le> b" and leaves: "\<not> (grid_next i ^^ n) c \<le> b"
  shows "(grid_next i ^^ k) c < (grid_next i ^^ Suc k) c"
proof (rule ccontr)
  assume "\<not> (grid_next i ^^ k) c < (grid_next i ^^ Suc k) c"
  moreover have "(grid_next i ^^ k) c \<le> (grid_next i ^^ Suc k) c"
    using grid_iterates_increase [OF i c, of k 1] by simp
  ultimately have stuck: "(grid_next i ^^ Suc k) c = (grid_next i ^^ k) c" by linarith
  have "(grid_next i ^^ n) c \<le> (grid_next i ^^ k) c"
  proof (cases "n \<le> k")
    case True
    then show ?thesis using grid_iterates_increase [OF i c, of n "k - n"] by simp
  next
    case False
    then show ?thesis using grid_iterates_stuck [OF stuck, of "n - k"] by simp
  qed
  then show False using below leaves by linarith
qed

lemma sorted_wrt_map_upt:
  fixes f :: "nat \<Rightarrow> real"
  assumes "\<And>k. Suc k < n \<Longrightarrow> f k < f (Suc k)"
  shows "sorted_wrt (<) (map f [0..<n])"
proof -
  have "transp ((<) :: real \<Rightarrow> real \<Rightarrow> bool)" by (rule transp_on_less)
  then show ?thesis
    using assms by (simp add: sorted_wrt_iff_nth_Suc_transp)
qed

lemma x_grid_bound_near:
  "\<bar>x_grid_bound p - (x_end p + 1 / 10 ^ 8)\<bar> \<le> (\<bar>x_end p\<bar> + 1) / 2 ^ 52"
proof -
  let ?t = "binary64_round (1 / 10 ^ 8)"
  let ?s = "x_end p + ?t"
  have t: "0 \<le> ?t - 1 / 10 ^ 8" "?t - 1 / 10 ^ 8 \<le> 1 / 2 ^ 80" "?t \<le> 1 / 2 ^ 26" "0 \<le> ?t"
    unfolding binary64_tolerance by simp_all
  have "(2::real) powr (- 1075) \<le> 2 powr (- 80)" by (rule powr_mono) simp_all
  also have "\<dots> = 1 / 2 ^ 80" by (simp add: powr_minus_divide)
  finally have tiny: "(2::real) powr (- 1075) \<le> 1 / 2 ^ 80" .
  have "\<bar>?s\<bar> \<le> \<bar>x_end p\<bar> + 1 / 2 ^ 26" using t by linarith
  then have "\<bar>?s\<bar> / 2 ^ 53 \<le> (\<bar>x_end p\<bar> + 1 / 2 ^ 26) / 2 ^ 53"
    by (rule divide_right_mono) simp
  also have "\<dots> = \<bar>x_end p\<bar> / 2 ^ 53 + 1 / 2 ^ 79" by (simp add: add_divide_distrib)
  finally have rel: "\<bar>?s\<bar> / 2 ^ 53 \<le> \<bar>x_end p\<bar> / 2 ^ 53 + 1 / 2 ^ 79" .
  have "\<bar>binary64_round ?s - ?s\<bar> \<le> \<bar>?s\<bar> / 2 ^ 53 + 2 powr (- 1075)"
    by (rule binary64_round_rel_error)
  then have "\<bar>x_grid_bound p - (x_end p + 1 / 10 ^ 8)\<bar>
               \<le> \<bar>x_end p\<bar> / 2 ^ 53 + 1 / 2 ^ 79 + 1 / 2 ^ 80 + 1 / 2 ^ 80"
    unfolding x_grid_bound_def using rel tiny t by linarith
  also have "\<dots> \<le> \<bar>x_end p\<bar> / 2 ^ 52 + 1 / 2 ^ 52"
  proof -
    have "\<bar>x_end p\<bar> / 2 ^ 53 \<le> \<bar>x_end p\<bar> / 2 ^ 52" by (rule divide_left_mono) simp_all
    then show ?thesis by simp
  qed
  finally show ?thesis by (simp add: add_divide_distrib)
qed

lemma generate_x_values_shape:
  assumes d: "is_double (x_start p)" "is_double (x_end p)"
    and lt: "x_start p < x_end p" and i: "0 < interval p"
    and ret: "generate_x_values p = Some xs"
  shows "\<exists>n. 0 < n
    \<and> xs = map (\<lambda>k. (grid_next (interval p) ^^ k) (x_start p)) [0..<n]
    \<and> (\<forall>k. k < n \<longleftrightarrow> (grid_next (interval p) ^^ k) (x_start p) \<le> x_grid_bound p)
    \<and> (\<forall>k<n. (grid_next (interval p) ^^ k) (x_start p)
                   < (grid_next (interval p) ^^ Suc k) (x_start p))
    \<and> x_end p < (grid_next (interval p) ^^ (n - 1)) (x_start p) + interval p"
proof -
  let ?g = "\<lambda>k. (grid_next (interval p) ^^ k) (x_start p)"
  let ?b = "x_grid_bound p"
  note c = is_doubleD [OF d(1)]
  have i0: "0 \<le> interval p" using i by simp
  from x_grid_loop_result [OF ret [unfolded generate_x_values_def]]
  obtain n where xs: "xs = [] @ map ?g [0..<n]"
    and out: "\<not> ?g n \<le> ?b" and inside: "\<And>k. k < n \<Longrightarrow> ?g k \<le> ?b"
    by blast
  have eb: "x_end p \<le> ?b"
    by (rule x_grid_bound_above [OF is_doubleD [OF d(2)]]) simp
  then have "?g 0 \<le> ?b" using lt by simp
  then have n: "0 < n" using out by (cases n) auto
  have iff: "k < n \<longleftrightarrow> ?g k \<le> ?b" for k
  proof
    assume "k < n" then show "?g k \<le> ?b" by (rule inside)
  next
    assume a: "?g k \<le> ?b"
    show "k < n"
    proof (rule ccontr)
      assume "\<not> k < n"
      then have "?g n \<le> ?g (n + (k - n))" "n + (k - n) = k"
        using grid_iterates_increase [OF i0 c, of n "k - n"] by simp_all
      then show False using a out by simp
    qed
  qed
  have strict: "?g k < ?g (Suc k)" if "k < n" for k
    by (rule grid_iterates_strict [OF i0 c inside [OF that] out])
  have "x_end p < ?g (n - 1) + interval p"
  proof (rule ccontr)
    assume "\<not> x_end p < ?g (n - 1) + interval p"
    then have "?g (n - 1) + interval p \<le> x_end p" by simp
    from binary64_round_mono [OF this]
    have "grid_next (interval p) (?g (n - 1)) \<le> x_end p"
      unfolding grid_next_def is_doubleD [OF d(2)] .
    moreover have "grid_next (interval p) (?g (n - 1)) = ?g n"
      using n by (cases n) simp_all
    ultimately show False using out eb by linarith
  qed
  moreover have "xs = map ?g [0..<n]" using xs by simp
  moreover have "\<forall>k. k < n \<longleftrightarrow> ?g k \<le> ?b" using iff by blast
  moreover have "\<forall>k<n. ?g k < ?g (Suc k)" using strict by blast
  ultimately have "0 < n \<and> xs = map ?g [0..<n] \<and> (\<forall>k. k < n \<longleftrightarrow> ?g k \<le> ?b)
      \<and> (\<forall>k<n. ?g k < ?g (Suc k)) \<and> x_end p < ?g (n - 1) + interval p"
    using n by (intro conjI)
  then show ?thesis by (rule exI [of _ n])
qed

text \<open>
  Claim C2, amended. For \<^verbatim>\<open>double\<close> parameters with \<open>x_start < x_end\<close> and
  \<open>interval > 0\<close>: the loop returns when \<open>2 ^ 51\<close> times the interval is at least \<open>|x_start|\<close>
  and the absolute value of the loop bound; and whenever it returns, the sequence is not
  empty, starts at \<open>x_start\<close>, is strictly increasing, and its last element \<open>last\<close> has
  \<open>x_end - interval < last\<close> and \<open>last \<le> bound\<close>, where the bound is the rounded sum
  \<^verbatim>\<open>x_end + 1e-8\<close>, which can exceed the exact \<open>x_end + 1e-8\<close> by up to
  \<open>(|x_end| + 1) / 2 ^ 52\<close>.
\<close>

theorem x_values_increasing_to_rounded_bound:
  assumes "is_double (x_start p)" and "is_double (x_end p)" and "is_double (interval p)"
    and "x_start p < x_end p" and "0 < interval p"
  shows "(max \<bar>x_start p\<bar> \<bar>x_grid_bound p\<bar> \<le> 2 ^ 51 * interval p
            \<longrightarrow> (\<exists>xs. generate_x_values p = Some xs)) \<and>
         (\<forall>xs. generate_x_values p = Some xs \<longrightarrow>
            xs \<noteq> [] \<and> hd xs = x_start p \<and> sorted_wrt (<) xs \<and>
            x_end p - interval p < last xs \<and> last xs \<le> x_grid_bound p \<and>
            last xs \<le> x_end p + 1 / 10 ^ 8 + (\<bar>x_end p\<bar> + 1) / 2 ^ 52)"
proof (intro conjI impI allI)
  assume "max \<bar>x_start p\<bar> \<bar>x_grid_bound p\<bar> \<le> 2 ^ 51 * interval p"
  then show "\<exists>xs. generate_x_values p = Some xs"
    by (rule generate_x_values_returns [OF assms(5,3)])
next
  fix xs
  assume ret: "generate_x_values p = Some xs"
  let ?g = "\<lambda>k. (grid_next (interval p) ^^ k) (x_start p)"
  from generate_x_values_shape [OF assms(1,2,4,5) ret]
  obtain n where n: "0 < n" and xs: "xs = map ?g [0..<n]"
    and iff: "\<And>k. k < n \<longleftrightarrow> ?g k \<le> x_grid_bound p"
    and strict: "\<And>k. k < n \<Longrightarrow> ?g k < ?g (Suc k)"
    and reach: "x_end p < ?g (n - 1) + interval p"
    by blast
  show "xs \<noteq> []" using n xs by simp
  show "hd xs = x_start p" using n xs by (simp add: hd_map upt_conv_Cons)
  show "sorted_wrt (<) xs"
    unfolding xs by (rule sorted_wrt_map_upt) (use strict in simp)
  have last: "last xs = ?g (n - 1)" using n xs by (simp add: last_map)
  show "x_end p - interval p < last xs" using reach last by simp
  have "n - 1 < n" using n by simp
  then show b: "last xs \<le> x_grid_bound p" using iff last by simp
  show "last xs \<le> x_end p + 1 / 10 ^ 8 + (\<bar>x_end p\<bar> + 1) / 2 ^ 52"
    using b x_grid_bound_near [of p] by linarith
qed

theorem x_values_increasing_to_rounded_bound_witness:
  "\<exists>xs. generate_x_values demo_params = Some xs \<and>
     xs \<noteq> [] \<and> hd xs = 0 \<and> sorted_wrt (<) xs \<and> 1 < last xs \<and>
     last xs \<le> x_grid_bound demo_params \<and> last xs \<le> 2 + 1 / 10 ^ 8 + 3 / 2 ^ 52"
proof -
  have p: "x_start demo_params = 0" "x_end demo_params = 2" "interval demo_params = 1"
    by (simp_all add: demo_params_def default_params_def)
  have m: "max \<bar>x_start demo_params\<bar> \<bar>x_grid_bound demo_params\<bar> \<le> 2 ^ 51 * interval demo_params"
    using demo_bound by (simp add: p)
  note t = x_values_increasing_to_rounded_bound [of demo_params, unfolded p, simplified]
  from t [THEN conjunct1] m obtain xs where xs: "generate_x_values demo_params = Some xs"
    by (auto simp: p)
  from t [THEN conjunct2, rule_format, OF xs] xs show ?thesis by simp
qed

subsection \<open>Short grids\<close>

lemma x_grid_one_point:
  assumes "c \<le> b" "grid_next i c = c1" "\<not> c1 \<le> b"
  shows "x_grid_loop b i c [] = Some [c]"
proof -
  have "x_grid_loop b i c [] = x_grid_loop b i c1 [c]"
    using assms(1,2) by (subst x_grid_loop.simps) (simp add: grid_next_def)
  also have "\<dots> = Some [c]"
    using assms(3) by (subst x_grid_loop.simps) simp
  finally show ?thesis .
qed

lemma x_grid_two_points:
  assumes "c \<le> b" "grid_next i c = c1" "c1 \<le> b" "grid_next i c1 = c2" "\<not> c2 \<le> b"
  shows "x_grid_loop b i c [] = Some [c, c1]"
proof -
  have "x_grid_loop b i c [] = x_grid_loop b i c1 [c]"
    using assms(1,2) by (subst x_grid_loop.simps) (simp add: grid_next_def)
  also have "\<dots> = x_grid_loop b i c2 [c, c1]"
    using assms(3,4) by (subst x_grid_loop.simps) (simp add: grid_next_def)
  also have "\<dots> = Some [c, c1]"
    using assms(5) by (subst x_grid_loop.simps) simp
  finally show ?thesis .
qed

lemma x_grid_three_points:
  assumes "c \<le> b" "grid_next i c = c1" "c1 \<le> b" "grid_next i c1 = c2" "c2 \<le> b"
    "grid_next i c2 = c3" "\<not> c3 \<le> b"
  shows "x_grid_loop b i c [] = Some [c, c1, c2]"
proof -
  have "x_grid_loop b i c [] = x_grid_loop b i c1 [c]"
    using assms(1,2) by (subst x_grid_loop.simps) (simp add: grid_next_def)
  also have "\<dots> = x_grid_loop b i c2 [c, c1]"
    using assms(3,4) by (subst x_grid_loop.simps) (simp add: grid_next_def)
  also have "\<dots> = x_grid_loop b i c3 [c, c1, c2]"
    using assms(5,6) by (subst x_grid_loop.simps) (simp add: grid_next_def)
  also have "\<dots> = Some [c, c1, c2]"
    using assms(7) by (subst x_grid_loop.simps) simp
  finally show ?thesis .
qed

lemma small_grid:
  assumes "x_start p = 0" "x_end p = 2" "interval p = 1"
  shows "generate_x_values p = Some [0, 1, 2]"
proof -
  have b: "2 \<le> x_grid_bound p"
    by (rule x_grid_bound_above) (simp_all add: assms)
  have "binary64_round (5 / 2) = 5 / 2"
    by (rule round_keeps_mid [where k = 1 and N = "5 * 2 ^ 50"]) simp_all
  then have b': "x_grid_bound p \<le> 5 / 2"
    by (rule x_grid_bound_below) (simp add: assms)
  show ?thesis
    unfolding generate_x_values_def assms
    by (rule x_grid_three_points [where ?c1.0 = 1 and ?c2.0 = 2 and ?c3.0 = 3])
      (use b b' in \<open>simp_all add: grid_next_def\<close>)
qed

lemma demo_grid: "generate_x_values (demo_params \<lparr> mode := m, unit := u \<rparr>) = Some [0, 1, 2]"
  by (rule small_grid) (simp_all add: demo_params_def default_params_def)

lemma rounded_bound: "x_grid_bound rounded_bound_params = 10 ^ 8 + 1 / 2 ^ 26"
proof -
  have "round_half_even ((10 ^ 8 + 6044629098073146 / 2 ^ 79) * 2 ^ 26) = 10 ^ 8 * 2 ^ 26 + 1"
    by (simp add: round_half_even_def Let_def)
  then show ?thesis
    unfolding x_grid_bound_def binary64_tolerance
    using binary64_round_mid [of 26 "10 ^ 8 + 6044629098073146 / 2 ^ 79"]
    by (simp add: rounded_bound_params_def)
qed

text \<open>
  Claim C2 as stated fails in its upper bound: with \<open>x_end = 10 ^ 8\<close> the loop bound
  \<^verbatim>\<open>x_end + 1e-8\<close> rounds to \<open>10 ^ 8 + 2 ^ (-26)\<close>, the next double after \<open>10 ^ 8\<close>, which is
  about \<open>1.49e-8\<close> above it; from \<open>x_start = 99999999 + 2 ^ (-26)\<close> with interval \<open>1\<close> the second
  point is that double, and it is in the grid.
\<close>

theorem x_values_bound_counterexample:
  "generate_x_values rounded_bound_params = Some [99999999 + 1 / 2 ^ 26, 10 ^ 8 + 1 / 2 ^ 26] \<and>
   \<not> last [99999999 + 1 / 2 ^ 26, 10 ^ 8 + 1 / 2 ^ 26]
        \<le> x_end rounded_bound_params + 1 / 10 ^ 8 \<and>
   x_start rounded_bound_params < x_end rounded_bound_params \<and>
   0 < interval rounded_bound_params \<and>
   is_double (x_start rounded_bound_params) \<and> is_double (x_end rounded_bound_params) \<and>
   is_double (interval rounded_bound_params)"
proof -
  have p: "x_start rounded_bound_params = 99999999 + 1 / 2 ^ 26"
    "x_end rounded_bound_params = 10 ^ 8" "interval rounded_bound_params = 1"
    by (simp_all add: rounded_bound_params_def)
  have s: "binary64_round (99999999 + 1 / 2 ^ 26) = 99999999 + 1 / 2 ^ 26"
    by (rule round_keeps_mid [where k = 26 and N = "99999999 * 2 ^ 26 + 1"]) simp_all
  have e: "binary64_round (10 ^ 8) = 10 ^ 8"
    by (rule round_keeps_mid [where k = 26 and N = "10 ^ 8 * 2 ^ 26"]) simp_all
  have 1: "grid_next 1 (99999999 + 1 / 2 ^ 26) = 10 ^ 8 + 1 / 2 ^ 26"
    using round_keeps_mid [where k = 26 and N = "10 ^ 8 * 2 ^ 26 + 1"
        and x = "10 ^ 8 + 1 / 2 ^ 26"]
    by (simp add: grid_next_def)
  have 2: "grid_next 1 (10 ^ 8 + 1 / 2 ^ 26) = 10 ^ 8 + 1 + 1 / 2 ^ 26"
    using round_keeps_mid [where k = 26 and N = "(10 ^ 8 + 1) * 2 ^ 26 + 1"
        and x = "10 ^ 8 + 1 + 1 / 2 ^ 26"]
    by (simp add: grid_next_def)
  have "generate_x_values rounded_bound_params
          = Some [99999999 + 1 / 2 ^ 26, 10 ^ 8 + 1 / 2 ^ 26]"
    unfolding generate_x_values_def rounded_bound p
    by (rule x_grid_two_points [OF _ 1 _ 2]) simp_all
  moreover have "is_double (99999999 + 1 / 2 ^ 26)" by (rule is_doubleI [OF s]) simp
  moreover have "is_double (10 ^ 8)" by (rule is_doubleI [OF e]) simp
  ultimately show ?thesis unfolding p by simp
qed

text \<open>
  Claim C7, amended. For \<^verbatim>\<open>double\<close> parameters with \<open>x_start < x_end\<close> and
  \<open>interval > 0\<close>, a returned grid is the sequence of the rounded sums \<open>c(0) = x_start\<close>,
  \<open>c(k+1) = c(k) + interval\<close>, and \<open>c(k)\<close> is in it exactly when it is at most the loop bound,
  the rounded sum \<^verbatim>\<open>x_end + 1e-8\<close>, which lies within \<open>(|x_end| + 1) / 2 ^ 52\<close> of
  \<open>x_end + 1e-8\<close>: the tolerance at the end point is the absolute \<open>1e-8\<close>, whatever the
  interval. The loop returns when \<open>2 ^ 51\<close> times the interval is at least \<open>|x_start|\<close> and
  the absolute value of the loop bound.
\<close>

theorem x_values_absolute_tolerance:
  assumes "is_double (x_start p)" and "is_double (x_end p)" and "is_double (interval p)"
    and "x_start p < x_end p" and "0 < interval p"
  shows "(max \<bar>x_start p\<bar> \<bar>x_grid_bound p\<bar> \<le> 2 ^ 51 * interval p
            \<longrightarrow> (\<exists>xs. generate_x_values p = Some xs)) \<and>
         (\<forall>xs. generate_x_values p = Some xs \<longrightarrow>
            (\<exists>n. xs = map (\<lambda>k. (grid_next (interval p) ^^ k) (x_start p)) [0..<n] \<and>
                 (\<forall>k. k < n \<longleftrightarrow>
                        (grid_next (interval p) ^^ k) (x_start p) \<le> x_grid_bound p))) \<and>
         \<bar>x_grid_bound p - (x_end p + 1 / 10 ^ 8)\<bar> \<le> (\<bar>x_end p\<bar> + 1) / 2 ^ 52"
proof (intro conjI impI allI)
  assume "max \<bar>x_start p\<bar> \<bar>x_grid_bound p\<bar> \<le> 2 ^ 51 * interval p"
  then show "\<exists>xs. generate_x_values p = Some xs"
    by (rule generate_x_values_returns [OF assms(5,3)])
next
  fix xs
  assume ret: "generate_x_values p = Some xs"
  let ?g = "\<lambda>k. (grid_next (interval p) ^^ k) (x_start p)"
  from generate_x_values_shape [OF assms(1,2,4,5) ret]
  obtain n where "xs = map ?g [0..<n] \<and> (\<forall>k. k < n \<longleftrightarrow> ?g k \<le> x_grid_bound p)"
    by blast
  then show "\<exists>n. xs = map ?g [0..<n] \<and> (\<forall>k. k < n \<longleftrightarrow> ?g k \<le> x_grid_bound p)"
    by (rule exI [of _ n])
next
  show "\<bar>x_grid_bound p - (x_end p + 1 / 10 ^ 8)\<bar> \<le> (\<bar>x_end p\<bar> + 1) / 2 ^ 52"
    by (rule x_grid_bound_near)
qed

theorem x_values_absolute_tolerance_witness:
  "\<exists>n. generate_x_values demo_params = Some (map (\<lambda>k. (grid_next 1 ^^ k) 0) [0..<n]) \<and>
        (\<forall>k. k < n \<longleftrightarrow> (grid_next 1 ^^ k) 0 \<le> x_grid_bound demo_params) \<and>
        \<bar>x_grid_bound demo_params - (2 + 1 / 10 ^ 8)\<bar> \<le> 3 / 2 ^ 52"
proof -
  have p: "x_start demo_params = 0" "x_end demo_params = 2" "interval demo_params = 1"
    by (simp_all add: demo_params_def default_params_def)
  have m: "max \<bar>x_start demo_params\<bar> \<bar>x_grid_bound demo_params\<bar> \<le> 2 ^ 51 * interval demo_params"
    using demo_bound by (simp add: p)
  note t = x_values_absolute_tolerance [of demo_params, unfolded p, simplified]
  from t [THEN conjunct1] m obtain xs where xs: "generate_x_values demo_params = Some xs"
    by (auto simp: p)
  from t [THEN conjunct2, THEN conjunct1, rule_format, OF xs]
  obtain n where "xs = map (\<lambda>k. (grid_next 1 ^^ k) 0) [0..<n] \<and>
      (\<forall>k. k < n \<longleftrightarrow> (grid_next 1 ^^ k) 0 \<le> x_grid_bound demo_params)"
    by blast
  then have "generate_x_values demo_params = Some (map (\<lambda>k. (grid_next 1 ^^ k) 0) [0..<n]) \<and>
      (\<forall>k. k < n \<longleftrightarrow> (grid_next 1 ^^ k) 0 \<le> x_grid_bound demo_params) \<and>
      \<bar>x_grid_bound demo_params - (2 + 1 / 10 ^ 8)\<bar> \<le> 3 / 2 ^ 52"
    using xs t [THEN conjunct2, THEN conjunct2] by simp
  then show ?thesis by (rule exI [of _ n])
qed

text \<open>
  Claim C7 as stated fails in both directions. With interval \<open>2 ^ (-7)\<close> and
  \<open>x_end = 2 ^ (-7) - 2 ^ (-28)\<close> the point \<open>2 ^ (-7)\<close> is in the grid although it is \<open>2 ^ (-28)\<close>, about
  \<open>3.7e-9\<close>, beyond \<open>x_end\<close>, more than \<open>interval * 1e-8\<close>, about \<open>7.8e-11\<close>. With interval
  \<open>128\<close> and \<open>x_end = 128 - 2 ^ (-21)\<close> the point \<open>128\<close> is within \<open>interval * 1e-8 = 1.28e-6\<close> of
  \<open>x_end\<close> and is not in the grid.
\<close>

theorem endpoint_tolerance_counterexample:
  "generate_x_values fine_grid_params = Some [0, 1 / 2 ^ 7] \<and>
   x_end fine_grid_params < 1 / 2 ^ 7 \<and>
   \<not> 1 / 2 ^ 7 - x_end fine_grid_params \<le> interval fine_grid_params * (1 / 10 ^ 8) \<and>
   generate_x_values coarse_grid_params = Some [0] \<and>
   x_end coarse_grid_params < 128 \<and>
   128 - x_end coarse_grid_params \<le> interval coarse_grid_params * (1 / 10 ^ 8) \<and>
   x_start fine_grid_params < x_end fine_grid_params \<and>
   0 < interval fine_grid_params \<and>
   x_start coarse_grid_params < x_end coarse_grid_params \<and>
   0 < interval coarse_grid_params \<and>
   is_double (x_end fine_grid_params) \<and> is_double (interval fine_grid_params) \<and>
   is_double (x_end coarse_grid_params) \<and> is_double (interval coarse_grid_params)"
proof -
  have f: "x_start fine_grid_params = 0" "x_end fine_grid_params = 1 / 2 ^ 7 - 1 / 2 ^ 28"
    "interval fine_grid_params = 1 / 2 ^ 7"
    by (simp_all add: fine_grid_params_def)
  have c: "x_start coarse_grid_params = 0" "x_end coarse_grid_params = 128 - 1 / 2 ^ 21"
    "interval coarse_grid_params = 128"
    by (simp_all add: coarse_grid_params_def)
  have r1: "binary64_round (1 / 2 ^ 7) = 1 / 2 ^ 7"
    by (rule round_keeps_small [where k = 7 and N = "2 ^ 52"]) simp_all
  have r2: "binary64_round (1 / 2 ^ 6) = 1 / 2 ^ 6"
    by (rule round_keeps_small [where k = 6 and N = "2 ^ 52"]) simp_all
  have r3: "binary64_round (3 / 2 ^ 8) = 3 / 2 ^ 8"
    by (rule round_keeps_small [where k = 7 and N = "3 * 2 ^ 51"]) simp_all
  have r4: "binary64_round (1 / 2 ^ 7 - 1 / 2 ^ 28) = 1 / 2 ^ 7 - 1 / 2 ^ 28"
    by (rule round_keeps_small [where k = 8 and N = "(2 ^ 21 - 1) * 2 ^ 32"]) simp_all
  have r5: "binary64_round 128 = 128"
    by (rule round_keeps_mid [where k = 7 and N = "2 ^ 52"]) simp_all
  have r6: "binary64_round (128 - 1 / 2 ^ 22) = 128 - 1 / 2 ^ 22"
    by (rule round_keeps_mid [where k = 6 and N = "2 ^ 53 - 2 ^ 24"]) simp_all
  have r7: "binary64_round (128 - 1 / 2 ^ 21) = 128 - 1 / 2 ^ 21"
    by (rule round_keeps_mid [where k = 6 and N = "2 ^ 53 - 2 ^ 25"]) simp_all
  have fb: "1 / 2 ^ 7 \<le> x_grid_bound fine_grid_params"
    by (rule x_grid_bound_above [OF r1]) (simp add: f)
  have fb': "x_grid_bound fine_grid_params \<le> 3 / 2 ^ 8"
    by (rule x_grid_bound_below [OF r3]) (simp add: f)
  have cb: "0 \<le> x_grid_bound coarse_grid_params"
    by (rule x_grid_bound_above) (simp_all add: c)
  have cb': "x_grid_bound coarse_grid_params \<le> 128 - 1 / 2 ^ 22"
    by (rule x_grid_bound_below [OF r6]) (simp add: c)
  have f1: "grid_next (1 / 2 ^ 7) 0 = 1 / 2 ^ 7"
    using r1 by (simp add: grid_next_def)
  have f2: "grid_next (1 / 2 ^ 7) (1 / 2 ^ 7) = 1 / 2 ^ 6"
    using r2 by (simp add: grid_next_def)
  have c1: "grid_next 128 0 = 128"
    using r5 by (simp add: grid_next_def)
  have "generate_x_values fine_grid_params = Some [0, 1 / 2 ^ 7]"
    unfolding generate_x_values_def f
    by (rule x_grid_two_points [OF _ f1 _ f2]) (use fb fb' in simp_all)
  moreover have "generate_x_values coarse_grid_params = Some [0]"
    unfolding generate_x_values_def c
    by (rule x_grid_one_point [OF _ c1]) (use cb cb' in simp_all)
  moreover have "is_double (1 / 2 ^ 7 - 1 / 2 ^ 28)" by (rule is_doubleI [OF r4]) simp
  moreover have "is_double (1 / 2 ^ 7)" by (rule is_doubleI [OF r1]) simp
  moreover have "is_double (128 - 1 / 2 ^ 21)" by (rule is_doubleI [OF r7]) simp
  moreover have "is_double 128" by (rule is_doubleI [OF r5]) simp
  ultimately show ?thesis unfolding f c by simp
qed

section \<open>Synthesis: modes, units and the per-source variation\<close>

lemma generate_x_values_mode [simp]:
  "generate_x_values (p \<lparr> mode := m \<rparr>) = generate_x_values p"
  by (simp add: generate_x_values_def x_grid_bound_def)

text \<open>
  Claim C9. For every parameter record, source index, file system and file name, the mode
  \<^verbatim>\<open>cdl\<close> gives exactly the result of the mode \<^verbatim>\<open>cd\<close>: the same grid,
  values, labels and title, the same exception, or no result in both.
\<close>

theorem cd_and_cdl_same_curve:
  "synthesize (p \<lparr> mode := ''cdl'' \<rparr>) i = synthesize (p \<lparr> mode := ''cd'' \<rparr>) i \<and>
   calculate_single_spectrum can_open filename (p \<lparr> mode := ''cdl'' \<rparr>) i
     = calculate_single_spectrum can_open filename (p \<lparr> mode := ''cd'' \<rparr>) i"
  by (simp add: calculate_single_spectrum_def synthesize_def Let_def split: option.splits)

lemma zero_intensities:
  "u \<notin> recognised_units \<Longrightarrow> abs_intensity u s f x = 0"
  "u \<noteq> ''nm'' \<Longrightarrow> u \<noteq> ''eV'' \<Longrightarrow> emi_intensity u s f x = 0"
  "u \<noteq> ''nm'' \<Longrightarrow> u \<noteq> ''eV'' \<Longrightarrow> cd_intensity u s f x = 0"
  by (simp_all add: abs_intensity_def emi_intensity_def cd_intensity_def recognised_units_def)

lemma map_zero: "(\<And>x. f x = (0::real)) \<Longrightarrow> map f xs = replicate (length xs) 0"
  by (induction xs) simp_all

lemma synthesize_None: "generate_x_values p = None \<Longrightarrow> synthesize p i = None"
  by (simp add: synthesize_def)

lemma synthesize_Some:
  assumes "generate_x_values p = Some xs"
  shows "\<exists>c. synthesize p i = Some c \<and> x_values c = xs"
  using assms by (simp add: synthesize_def Let_def split: prod.splits)

lemma synthesize_zero:
  assumes "mode p \<notin> recognised_modes \<or> unit p \<notin> recognised_units \<or>
           (mode p = ''emi'' \<and> unit p = ''cm-1'') \<or>
           ((mode p = ''cd'' \<or> mode p = ''cdl'') \<and> unit p = ''cm-1'')"
    and "synthesize p i = Some c"
  shows "y_values c = replicate (length (x_values c)) 0"
proof -
  consider "mode p \<notin> recognised_modes" | "mode p \<in> recognised_modes" "unit p \<notin> recognised_units"
    | "mode p = ''emi''" "unit p = ''cm-1''"
    | "mode p = ''cd'' \<or> mode p = ''cdl''" "unit p = ''cm-1''"
    using assms(1) by blast
  then show ?thesis
  proof cases
    case 1
    then show ?thesis using assms(2)
      by (auto simp: synthesize_def Let_def recognised_modes_def split: option.splits)
  next
    case 2
    then show ?thesis using assms(2)
      by (auto simp: synthesize_def Let_def recognised_modes_def zero_intensities
          recognised_units_def map_zero split: option.splits if_splits)
  next
    case 3
    then show ?thesis using assms(2)
      by (auto simp: synthesize_def Let_def zero_intensities map_zero split: option.splits)
  next
    case 4
    then show ?thesis using assms(2)
      by (auto simp: synthesize_def Let_def zero_intensities map_zero split: option.splits)
  qed
qed

text \<open>
  Claim C6, amended. For a mode or a unit without a branch, for \<^verbatim>\<open>emi\<close> with
  \<^verbatim>\<open>cm-1\<close> and for \<^verbatim>\<open>cd\<close> or \<^verbatim>\<open>cdl\<close> with \<^verbatim>\<open>cm-1\<close>: the
  synthesis returns exactly when the grid loop returns; the curve it returns has the grid as
  \<^verbatim>\<open>x_values\<close> and as many zeros as \<^verbatim>\<open>y_values\<close>; an unrecognised mode leaves
  \<^verbatim>\<open>y_label\<close> and \<^verbatim>\<open>title\<close> empty, an unrecognised unit leaves
  \<^verbatim>\<open>x_label\<close> empty; and for an input file that opens
  \<^verbatim>\<open>calculate_single_spectrum\<close> throws nothing and returns what the synthesis does.
  The grid loop returns when the interval is a positive \<^verbatim>\<open>double\<close> and \<open>2 ^ 51\<close> times
  the interval is at least \<open>|x_start|\<close> and the absolute value of the loop bound.
\<close>

theorem unsupported_combination_zero_curve:
  assumes "mode p \<notin> recognised_modes \<or> unit p \<notin> recognised_units \<or>
           (mode p = ''emi'' \<and> unit p = ''cm-1'') \<or>
           ((mode p = ''cd'' \<or> mode p = ''cdl'') \<and> unit p = ''cm-1'')"
  shows "(generate_x_values p = None \<longrightarrow> synthesize p i = None) \<and>
         (\<forall>xs. generate_x_values p = Some xs \<longrightarrow>
            (\<exists>c. synthesize p i = Some c \<and> x_values c = xs \<and>
                 y_values c = replicate (length xs) 0 \<and>
                 (mode p \<notin> recognised_modes \<longrightarrow> y_label c = [] \<and> title c = []) \<and>
                 (unit p \<notin> recognised_units \<longrightarrow> x_label c = []))) \<and>
         (\<forall>f. open_input can_open f \<noteq> None \<longrightarrow>
            calculate_single_spectrum can_open f p i = map_option Inr (synthesize p i)) \<and>
         (0 < interval p \<and> is_double (interval p) \<and>
            max \<bar>x_start p\<bar> \<bar>x_grid_bound p\<bar> \<le> 2 ^ 51 * interval p
            \<longrightarrow> (\<exists>c. synthesize p i = Some c))"
proof (intro conjI impI allI)
  assume "generate_x_values p = None"
  then show "synthesize p i = None" by (rule synthesize_None)
next
  fix xs
  assume "generate_x_values p = Some xs"
  from synthesize_Some [OF this] obtain c where c: "synthesize p i = Some c" "x_values c = xs"
    by blast
  have y: "y_values c = replicate (length xs) 0"
    using synthesize_zero [OF assms c(1)] c(2) by simp
  have l: "mode p \<notin> recognised_modes \<longrightarrow> y_label c = [] \<and> title c = []"
    using c(1) by (auto simp: synthesize_def Let_def recognised_modes_def split: option.splits)
  have u: "unit p \<notin> recognised_units \<longrightarrow> x_label c = []"
    using c(1) by (auto simp: synthesize_def Let_def recognised_units_def
        split: option.splits if_splits)
  show "\<exists>c. synthesize p i = Some c \<and> x_values c = xs \<and> y_values c = replicate (length xs) 0 \<and>
          (mode p \<notin> recognised_modes \<longrightarrow> y_label c = [] \<and> title c = []) \<and>
          (unit p \<notin> recognised_units \<longrightarrow> x_label c = [])"
    using c y l u by blast
next
  fix f
  assume "open_input can_open f \<noteq> None"
  then show "calculate_single_spectrum can_open f p i = map_option Inr (synthesize p i)"
    by (auto simp: calculate_single_spectrum_def)
next
  assume "0 < interval p \<and> is_double (interval p) \<and>
            max \<bar>x_start p\<bar> \<bar>x_grid_bound p\<bar> \<le> 2 ^ 51 * interval p"
  then obtain xs where "generate_x_values p = Some xs"
    using generate_x_values_returns [of p] by blast
  from synthesize_Some [OF this] show "\<exists>c. synthesize p i = Some c" by blast
qed

theorem unsupported_combination_zero_curve_witness:
  "\<exists>c. synthesize (demo_params \<lparr> mode := ''raman'' \<rparr>) 0 = Some c \<and>
     calculate_single_spectrum (\<lambda>f. True) ''a.out'' (demo_params \<lparr> mode := ''raman'' \<rparr>) 0
       = Some (Inr c) \<and>
     x_values c = [0, 1, 2] \<and> y_values c = [0, 0, 0] \<and> y_label c = [] \<and> title c = []"
proof -
  let ?p = "demo_params \<lparr> mode := ''raman'' \<rparr>"
  have g: "generate_x_values ?p = Some [0, 1, 2]"
    using demo_grid [where m = "''raman''" and u = "''nm''"]
    by (simp add: demo_params_def default_params_def)
  have m: "mode ?p \<notin> recognised_modes" by (simp add: recognised_modes_def)
  then have h: "mode ?p \<notin> recognised_modes \<or> unit ?p \<notin> recognised_units \<or>
           (mode ?p = ''emi'' \<and> unit ?p = ''cm-1'') \<or>
           ((mode ?p = ''cd'' \<or> mode ?p = ''cdl'') \<and> unit ?p = ''cm-1'')" by blast
  note t = unsupported_combination_zero_curve
    [where p = ?p and i = 0 and can_open = "\<lambda>f. True", OF h]
  from t [THEN conjunct2, THEN conjunct1, rule_format, OF g] m
  obtain c where c: "synthesize ?p 0 = Some c" "x_values c = [0, 1, 2]"
    "y_values c = replicate (length [0::real, 1, 2]) 0" "y_label c = []" "title c = []"
    by blast
  have "open_input (\<lambda>f. True) ''a.out'' \<noteq> None" by (simp add: open_input_def)
  with t [THEN conjunct2, THEN conjunct2, THEN conjunct1]
  have "calculate_single_spectrum (\<lambda>f. True) ''a.out'' ?p 0 = Some (Inr c)"
    using c(1) by simp
  then show ?thesis using c by (intro exI [of _ c]) simp
qed

text \<open>
  Claim C6 as stated fails in \<open>returns normally\<close>: with the unrecognised mode
  \<^verbatim>\<open>raman\<close> on the grid from \<open>2 ^ 53\<close> to \<open>2 ^ 54\<close> with interval \<open>1\<close> the grid loop
  never returns, and neither does the synthesis.
\<close>

theorem unsupported_mode_no_return_counterexample:
  "synthesize (huge_grid_params \<lparr> mode := ''raman'' \<rparr>) 0 = None \<and>
   mode (huge_grid_params \<lparr> mode := ''raman'' \<rparr>) \<notin> recognised_modes"
  using synthesize_None [OF huge_grid_stalls [of "''raman''"], of 0]
  by (simp add: recognised_modes_def)

text \<open>
  Claim C8. Under \<^verbatim>\<open>abs\<close> and \<^verbatim>\<open>nm\<close> the curves of the sources 0 and 1 are
  both on the grid of the parameters (and neither is returned when the grid loop does not
  return); curve 0 is the sum of the four bands centred at 280, 320, 420 and 520 with
  amplitudes 15000, 12000, 8000 and 5000; curve 1 has every centre 20 higher and every
  amplitude multiplied by 0.85; so curve 1 at \<open>x\<close> is 0.85 times the band sum of curve 0 at
  \<open>x - 20\<close>.
\<close>

theorem second_source_shifted_and_scaled:
  assumes "mode p = ''abs''" and "unit p = ''nm''"
  shows "synthesize p 0 =
           map_option (\<lambda>xs. \<lparr> x_values = xs,
               y_values = map (\<lambda>x. 15000 * exp (- ((x - 280) / 15)\<^sup>2)
                                   + 12000 * exp (- ((x - 320) / 20)\<^sup>2)
                                   + 8000 * exp (- ((x - 420) / 25)\<^sup>2)
                                   + 5000 * exp (- ((x - 520) / 30)\<^sup>2)) xs,
               x_label = ''Wavelength (nm)'', y_label = abs_y_label,
               title = ''Absorption Spectra'' \<rparr>) (generate_x_values p) \<and>
         synthesize p 1 =
           map_option (\<lambda>xs. \<lparr> x_values = xs,
               y_values = map (\<lambda>x. 0.85 * 15000 * exp (- ((x - (280 + 20)) / 15)\<^sup>2)
                                   + 0.85 * 12000 * exp (- ((x - (320 + 20)) / 20)\<^sup>2)
                                   + 0.85 * 8000 * exp (- ((x - (420 + 20)) / 25)\<^sup>2)
                                   + 0.85 * 5000 * exp (- ((x - (520 + 20)) / 30)\<^sup>2)) xs,
               x_label = ''Wavelength (nm)'', y_label = abs_y_label,
               title = ''Absorption Spectra'' \<rparr>) (generate_x_values p) \<and>
         synthesize p 1 =
           map_option (\<lambda>xs. \<lparr> x_values = xs,
               y_values = map (\<lambda>x. 0.85 * abs_intensity ''nm'' 0 1 (x - 20)) xs,
               x_label = ''Wavelength (nm)'', y_label = abs_y_label,
               title = ''Absorption Spectra'' \<rparr>) (generate_x_values p)"
  using assms
  by (cases "generate_x_values p")
    (simp_all add: synthesize_def Let_def abs_intensity_def algebra_simps)

theorem second_source_shifted_and_scaled_witness:
  "synthesize demo_params 0 =
     Some \<lparr> x_values = [0, 1, 2],
            y_values = map (\<lambda>x. 15000 * exp (- ((x - 280) / 15)\<^sup>2)
                                + 12000 * exp (- ((x - 320) / 20)\<^sup>2)
                                + 8000 * exp (- ((x - 420) / 25)\<^sup>2)
                                + 5000 * exp (- ((x - 520) / 30)\<^sup>2)) [0, 1, 2],
            x_label = ''Wavelength (nm)'', y_label = abs_y_label,
            title = ''Absorption Spectra'' \<rparr> \<and>
   synthesize demo_params 1 =
     Some \<lparr> x_values = [0, 1, 2],
            y_values = map (\<lambda>x. 0.85 * abs_intensity ''nm'' 0 1 (x - 20)) [0, 1, 2],
            x_label = ''Wavelength (nm)'', y_label = abs_y_label,
            title = ''Absorption Spectra'' \<rparr>"
proof -
  have g: "generate_x_values demo_params = Some [0, 1, 2]"
    using demo_grid [where m = "''abs''" and u = "''nm''"]
    by (simp add: demo_params_def default_params_def)
  have m: "mode demo_params = ''abs''" "unit demo_params = ''nm''"
    by (simp_all add: demo_params_def default_params_def)
  note t = second_source_shifted_and_scaled [OF m]
  show ?thesis
    using t [THEN conjunct1] t [THEN conjunct2, THEN conjunct2]
    unfolding g by simp
qed

section \<open>The shared y range\<close>

lemma min_element_Min: "ys \<noteq> [] \<Longrightarrow> min_element ys = Some (Min (set ys))"
  by (cases ys) (simp_all add: min_element_def Min.set_eq_fold del: set_simps)

lemma max_element_Max: "ys \<noteq> [] \<Longrightarrow> max_element ys = Some (Max (set ys))"
  by (cases ys) (simp_all add: max_element_def Max.set_eq_fold del: set_simps)

lemma Min_insert_min:
  fixes lo :: real
  assumes "finite A" "finite Y" "Y \<noteq> {}"
  shows "Min (insert (min lo (Min Y)) A) = Min (insert lo (Y \<union> A))"
proof (cases "A = {}")
  case True
  then show ?thesis using assms by simp
next
  case False
  then show ?thesis using assms by (simp add: Min_Un min.assoc)
qed

lemma Max_insert_max:
  fixes hi :: real
  assumes "finite A" "finite Y" "Y \<noteq> {}"
  shows "Max (insert (max hi (Max Y)) A) = Max (insert hi (Y \<union> A))"
proof (cases "A = {}")
  case True
  then show ?thesis using assms by simp
next
  case False
  then show ?thesis using assms by (simp add: Max_Un max.assoc)
qed

lemma finite_all_y_values [simp]: "finite (all_y_values spectra)"
  by (simp add: all_y_values_def)

lemma overall_y_loop_Min_Max:
  assumes "\<forall>s \<in> set spectra. y_values s \<noteq> []"
  shows "overall_y_loop spectra lo hi
           = Some (Min (insert lo (all_y_values spectra)), Max (insert hi (all_y_values spectra)))"
  using assms
proof (induction spectra arbitrary: lo hi)
  case Nil
  then show ?case by (simp add: all_y_values_def)
next
  case (Cons s ss)
  have ne: "y_values s \<noteq> []" and rest: "\<forall>s \<in> set ss. y_values s \<noteq> []"
    using Cons.prems by simp_all
  have Y: "set (y_values s) \<noteq> {}" "finite (set (y_values s))" using ne by simp_all
  have A: "all_y_values (s # ss) = set (y_values s) \<union> all_y_values ss"
    by (simp add: all_y_values_def)
  show ?case
    unfolding A
    using Cons.IH [OF rest] Y
    by (simp add: min_element_Min [OF ne] max_element_Max [OF ne] Min_insert_min Max_insert_max
        del: Min_insert Max_insert)
qed

lemma Min_below_DBL_MAX:
  assumes "finite A" "A \<noteq> {}" "\<forall>y \<in> A. \<bar>y\<bar> \<le> DBL_MAX"
  shows "Min (insert DBL_MAX A) = Min A" "Max (insert (- DBL_MAX) A) = Max A"
proof -
  have "Min A \<in> A" "Max A \<in> A" using assms by simp_all
  then have "Min A \<le> DBL_MAX" "- DBL_MAX \<le> Max A" using assms(3) by fastforce+
  moreover have "Min (insert DBL_MAX A) = min DBL_MAX (Min A)"
    by (rule Min_insert) (use assms in simp_all)
  moreover have "Max (insert (- DBL_MAX) A) = max (- DBL_MAX) (Max A)"
    by (rule Max_insert) (use assms in simp_all)
  ultimately show "Min (insert DBL_MAX A) = Min A" "Max (insert (- DBL_MAX) A) = Max A"
    by (simp_all only: min_absorb2 max_absorb2)
qed

text \<open>
  Claim C3. For a non-empty list of curves, each with at least one sample and every sample
  a finite \<^verbatim>\<open>double\<close>, when the mode is neither \<^verbatim>\<open>cd\<close> nor
  \<^verbatim>\<open>cdl\<close> and the overall minimum is not negative, the y range is
  \<open>y_min = 0\<close> and \<open>y_max = overall_max + (overall_max - overall_min) * 0.10\<close>: the
  padding above comes from the range of the data, not from \<open>[0, overall_max]\<close>.
\<close>

theorem y_range_floor_at_zero:
  assumes "spectra \<noteq> []"
    and "\<forall>s \<in> set spectra. y_values s \<noteq> []"
    and "\<forall>y \<in> all_y_values spectra. \<bar>y\<bar> \<le> DBL_MAX"
    and "mode p \<noteq> ''cd''" and "mode p \<noteq> ''cdl''"
    and "0 \<le> Min (all_y_values spectra)"
  shows "y_axis_range spectra p =
           Some (0, Max (all_y_values spectra)
                    + (Max (all_y_values spectra) - Min (all_y_values spectra)) * 0.10)"
proof -
  obtain s where s: "s \<in> set spectra" using assms(1) by (cases spectra) auto
  then have "set (y_values s) \<noteq> {}" using assms(2) by simp
  then have ne: "all_y_values spectra \<noteq> {}" using s by (auto simp: all_y_values_def)
  note mm = Min_below_DBL_MAX [OF finite_all_y_values ne assms(3)]
  show ?thesis
    using assms(4-6)
    by (simp add: y_axis_range_def overall_y_loop_Min_Max [OF assms(2)] mm Let_def
        del: Min_insert Max_insert)
qed

theorem y_range_floor_at_zero_witness:
  "y_axis_range [two_point_curve] default_params = Some (0, 3.2)"
proof -
  have a: "all_y_values [two_point_curve] = {1, 3}"
    by (simp add: all_y_values_def two_point_curve_def)
  have "\<forall>y \<in> all_y_values [two_point_curve]. \<bar>y\<bar> \<le> DBL_MAX"
    unfolding a by (simp add: DBL_MAX_def)
  from y_range_floor_at_zero [of "[two_point_curve]" default_params, OF _ _ this]
  show ?thesis
    unfolding a by (simp add: two_point_curve_def default_params_def)
qed

section \<open>Tick positions\<close>

lemma fl_zero [simp]: "fl 0 = Finite 0"
  by (simp add: fl_def)

lemma tick_loop_NaN: "tick_loop bound step NaN acc = Some acc"
  by (subst tick_loop.simps) simp

lemma calculateNiceTicks_constant: "calculateNiceTicks v v 6 = Some []"
  by (cases "v = 0"; cases "0 < v")
    (simp_all add: calculateNiceTicks_def d_sub_def Let_def tick_loop_NaN)

text \<open>
  Claim C5, at the failing input. For \<open>max = min\<close> the tick computation has no special
  case: the rough step is zero, its \<^verbatim>\<open>log10\<close> is minus infinity, the magnitude
  \<^verbatim>\<open>pow(10, -inf)\<close> is zero, the normalised step is \<open>0 / 0\<close>, a NaN, and the result
  is not a single tick but no tick at all.
\<close>

theorem constant_range_gives_no_ticks:
  "calculateNiceTicks v v 6 = Some []
   \<and> d_log10 (d_div (d_sub (Finite v) (Finite v)) (Finite (of_int (6 - 1)))) = NegInf
   \<and> d_div (d_div (d_sub (Finite v) (Finite v)) (Finite (of_int (6 - 1))))
            (d_pow10 (d_floor (d_log10 (d_div (d_sub (Finite v) (Finite v))
                                              (Finite (of_int (6 - 1))))))) = NaN"
  using calculateNiceTicks_constant [of v]
  by (simp add: d_sub_def)

subsection \<open>Rounded operations on values of ordinary size\<close>

lemma round_2p1023: "binary64_round (2 ^ 1023) = 2 ^ 1023"
proof -
  have "(2::real) powr of_int 1023 = 2 ^ 1023"
    using powr_realpow [of "2::real" 1023] by simp
  then show ?thesis using binary64_round_power_of_two [of 1023] by simp
qed

lemma round_abs_le:
  assumes "\<bar>x\<bar> \<le> y" "binary64_round y = y"
  shows "\<bar>binary64_round x\<bar> \<le> y"
proof -
  have "binary64_round x \<le> y"
    using binary64_round_mono [of x y] assms by simp
  moreover have "- y \<le> binary64_round x"
    using binary64_round_mono [of "- y" x] assms by (simp add: binary64_round_minus)
  ultimately show ?thesis by simp
qed

lemma fl_finite:
  assumes "\<bar>x\<bar> \<le> 2 ^ 1023"
  shows "fl x = Finite (binary64_round x)"
proof -
  have "\<bar>binary64_round x\<bar> \<le> 2 ^ 1023"
    by (rule round_abs_le [OF assms round_2p1023])
  then have "binary64_round x < 2 ^ 1024" "- (2 ^ 1024) < binary64_round x" by simp_all
  then show ?thesis by (simp add: fl_def Let_def)
qed

lemma tiny_le:
  fixes S :: real
  assumes "1 / 2 ^ 1015 \<le> S"
  shows "2 powr (- 1075) \<le> S / 2 ^ 60"
proof -
  have "(2::real) powr (- 1075) = 1 / 2 ^ 1075"
    using powr_realpow [of "2::real" 1075] by (simp add: powr_minus_divide)
  also have "\<dots> = (1 / 2 ^ 1015) / 2 ^ 60" by simp
  also have "\<dots> \<le> S / 2 ^ 60" using assms by (rule divide_right_mono) simp
  finally show ?thesis .
qed

text \<open>The error of one rounding, relative to a scale that is not subnormal.\<close>

lemma round_near:
  assumes "1 / 2 ^ 1015 \<le> S" "\<bar>x\<bar> \<le> S"
  shows "\<bar>binary64_round x - x\<bar> \<le> S / 2 ^ 52"
proof -
  have "\<bar>binary64_round x - x\<bar> \<le> \<bar>x\<bar> / 2 ^ 53 + 2 powr (- 1075)"
    by (rule binary64_round_rel_error)
  moreover have "\<bar>x\<bar> / 2 ^ 53 \<le> S / 2 ^ 53" using assms(2) by (rule divide_right_mono) simp
  moreover have "S / 2 ^ 53 + S / 2 ^ 60 \<le> S / 2 ^ 52"
  proof -
    have "0 \<le> S" using assms(1) by (rule order_trans [rotated]) simp
    then show ?thesis by (simp add: field_simps)
  qed
  ultimately show ?thesis using tiny_le [OF assms(1)] by linarith
qed

lemma round_near_pos:
  assumes "1 / 2 ^ 1015 \<le> x"
  shows "x - x / 2 ^ 52 \<le> binary64_round x" "binary64_round x \<le> x + x / 2 ^ 52"
proof -
  have "0 \<le> x" using assms by (rule order_trans [rotated]) simp
  then have "\<bar>x\<bar> \<le> x" by simp
  from round_near [OF assms this]
  have "\<bar>binary64_round x - x\<bar> \<le> x / 2 ^ 52" .
  then show "x - x / 2 ^ 52 \<le> binary64_round x" "binary64_round x \<le> x + x / 2 ^ 52"
    by linarith+
qed

lemma ln_10_bounds: "1 \<le> ln (10::real)" "ln (10::real) \<le> 4"
proof -
  have e1: "(2::real) \<le> exp 1" using exp_ge_add_one_self [of "1::real"] by simp
  have "exp (1::real) \<le> 3" using exp_le by simp
  then have "exp (1::real) \<le> 10" by simp
  then have "ln (exp (1::real)) \<le> ln 10" by (subst ln_le_cancel_iff) simp_all
  then show "1 \<le> ln (10::real)" by simp
  have "exp (4::real) = exp 1 ^ 4" using exp_of_nat_mult [of 4 "1::real"] by simp
  moreover have "(2::real) ^ 4 \<le> exp 1 ^ 4" using e1 by (rule power_mono) simp
  ultimately have "(10::real) \<le> exp 4" by simp
  then have "ln (10::real) \<le> ln (exp 4)" by (subst ln_le_cancel_iff) simp_all
  then show "ln (10::real) \<le> 4" by simp
qed

subsection \<open>The magnitude of the rough step\<close>

lemma ln_2_le_1: "ln (2::real) \<le> 1"
proof -
  have "(2::real) \<le> exp 1" using exp_ge_add_one_self [of "1::real"] by simp
  then have "ln (2::real) \<le> ln (exp 1)" by (subst ln_le_cancel_iff) simp_all
  then show ?thesis by simp
qed

lemma ln_one_over: "0 < x \<Longrightarrow> ln (1 / x) = - ln (x::real)"
  by (simp add: ln_div)

lemma log10_size:
  assumes "1 / 2 ^ 1004 \<le> r" "r \<le> 2 ^ 1001"
  shows "\<bar>log 10 r\<bar> \<le> 2 ^ 10"
proof -
  have r: "0 < r" using assms(1) by (rule less_le_trans [rotated]) simp
  have ln2: "0 \<le> ln (2::real)" by simp
  have p1: "ln ((2::real) ^ 1001) = real 1001 * ln 2" by (rule ln_realpow)
  have p2: "ln ((2::real) ^ 1004) = real 1004 * ln 2" by (rule ln_realpow)
  have "ln r \<le> ln (2 ^ 1001)" by (rule ln_mono) (use assms(2) r in simp_all)
  also have "\<dots> \<le> 1001" unfolding p1 using ln_2_le_1 by simp
  finally have up: "ln r \<le> 1001" .
  have "ln (1 / 2 ^ 1004) \<le> ln r" by (rule ln_mono) (use assms(1) r in simp_all)
  moreover have "ln (1 / 2 ^ 1004 :: real) = - ln (2 ^ 1004)"
    by (rule ln_one_over) simp
  moreover have "ln ((2::real) ^ 1004) \<le> 1004" unfolding p2 using ln_2_le_1 by simp
  ultimately have lo: "- 1004 \<le> ln r" by linarith
  have a: "\<bar>ln r\<bar> \<le> 1004" using up lo by simp
  have "\<bar>log 10 r\<bar> = \<bar>ln r\<bar> / ln 10" by (simp add: log_def)
  also have "\<dots> \<le> \<bar>ln r\<bar> / 1"
    by (rule divide_left_mono) (use ln_10_bounds in simp_all)
  finally show ?thesis using a by simp
qed

lemma powr_10_small:
  fixes e :: real
  assumes "0 \<le> e" "e \<le> 1 / 16"
  shows "1 - 4 * e \<le> 10 powr (- e)" "10 powr e \<le> 1 + 8 * e"
proof -
  have l: "0 \<le> ln (10::real)" using ln_10_bounds by simp
  have "1 - 4 * e \<le> 1 + (- e * ln 10)"
    using mult_left_mono [OF ln_10_bounds(2) assms(1)] by simp
  also have "\<dots> \<le> exp (- e * ln 10)" by (rule exp_ge_add_one_self)
  also have "\<dots> = 10 powr (- e)" by (simp add: powr_def)
  finally show "1 - 4 * e \<le> 10 powr (- e)" .
  have e4: "e * ln 10 \<le> 4 * e" "0 \<le> e * ln 10"
    using mult_left_mono [OF ln_10_bounds(2) assms(1)] assms(1) l by (simp_all add: mult.commute)
  have "10 powr e = exp (e * ln 10)" by (simp add: powr_def)
  also have "\<dots> \<le> exp (4 * e)" using e4 by simp
  also have "\<dots> \<le> 1 + 4 * e + (4 * e)\<^sup>2"
    by (rule exp_bound) (use assms in simp_all)
  also have "\<dots> \<le> 1 + 8 * e"
  proof -
    have "e * e \<le> (1 / 16) * e" using assms by (intro mult_right_mono) simp_all
    then have "16 * (e * e) \<le> e" by simp
    moreover have "0 \<le> e * e" by simp
    ultimately have "4 * (e * e) \<le> e" by linarith
    then show ?thesis by (simp add: power2_eq_square)
  qed
  finally show "10 powr e \<le> 1 + 8 * e" .
qed

lemma magnitude_bounds:
  assumes "1 / 2 ^ 1004 \<le> r" "r \<le> 2 ^ 1001"
  defines "P \<equiv> 10 powr of_int \<lfloor>binary64_round (log 10 r)\<rfloor>"
  shows "P - P / 2 ^ 40 \<le> r" "r \<le> 10 * P + 10 * P / 2 ^ 39" "0 < P"
proof -
  let ?L = "binary64_round (log 10 r)"
  let ?k = "real_of_int \<lfloor>?L\<rfloor>"
  let ?e = "1 / 2 ^ 42 :: real"
  have r: "0 < r" using assms(1) by (rule less_le_trans [rotated]) simp
  show P: "0 < P" by (simp add: P_def)
  have "\<bar>?L - log 10 r\<bar> \<le> 2 ^ 10 / 2 ^ 52"
    by (rule round_near [OF _ log10_size [OF assms(1,2)]]) simp
  then have err: "\<bar>?L - log 10 r\<bar> \<le> ?e" by simp
  have k: "?k \<le> ?L" "?L < ?k + 1" by linarith+
  have lo: "?k - ?e \<le> log 10 r" and hi: "log 10 r \<le> ?k + 1 + ?e"
    using err k by linarith+
  have rr: "10 powr (log 10 r) = r" using r by simp
  have "10 powr (?k - ?e) \<le> 10 powr (log 10 r)" using lo by (rule powr_mono) simp
  then have "P * 10 powr (- ?e) \<le> r"
    unfolding rr P_def by (simp add: powr_diff powr_minus_divide)
  moreover have "P * (1 - 4 * ?e) \<le> P * 10 powr (- ?e)"
    using P powr_10_small(1) [of ?e] by (intro mult_left_mono) simp_all
  ultimately show "P - P / 2 ^ 40 \<le> r" by (simp add: algebra_simps)
  have "10 powr (log 10 r) \<le> 10 powr (?k + 1 + ?e)" using hi by (rule powr_mono) simp
  also have "10 powr (?k + 1 + ?e) = 10 powr ?k * 10 powr 1 * 10 powr ?e"
    by (simp only: powr_add)
  also have "\<dots> = P * 10 * 10 powr ?e" by (simp add: P_def)
  finally have "r \<le> P * 10 * 10 powr ?e" unfolding rr .
  moreover have "P * 10 * 10 powr ?e \<le> P * 10 * (1 + 8 * ?e)"
    using P powr_10_small(2) [of ?e] by (intro mult_left_mono) simp_all
  ultimately show "r \<le> 10 * P + 10 * P / 2 ^ 39" by (simp add: algebra_simps)
qed

subsection \<open>The nice step\<close>

lemma nice_step_bounds:
  fixes r :: real
  assumes r1: "1 / 2 ^ 1004 \<le> r" and r2: "r \<le> 2 ^ 1001"
  defines "g \<equiv> binary64_round (10 powr of_int \<lfloor>binary64_round (log 10 r)\<rfloor>)"
  defines "z \<equiv> binary64_round (r / g)"
  defines "s \<equiv> (if z \<le> 1 then g else if z \<le> 2 then binary64_round (2 * g)
                  else if z \<le> 5 then binary64_round (5 * g) else binary64_round (10 * g))"
  shows "r - r / 2 ^ 37 \<le> s" and "s \<le> 5 * r / 2 + r / 2 ^ 36"
    and "binary64_round s = s"
    and "1 / 2 ^ 1010 \<le> g" and "g \<le> 2 ^ 1003" and "r / g \<le> 32"
proof -
  define P :: real where "P = 10 powr of_int \<lfloor>binary64_round (log 10 r)\<rfloor>"
  have g_def': "g = binary64_round P" by (simp add: g_def P_def)
  have r: "0 < r" using r1 by (rule less_le_trans [rotated]) simp
  have P: "P - P / 2 ^ 40 \<le> r" "r \<le> 10 * P + 10 * P / 2 ^ 39" "0 < P"
    using magnitude_bounds [OF r1 r2] by (simp_all add: P_def)
  have Pr: "P \<le> 2 * r" "r \<le> 16 * P" using P by simp_all
  have "1 / 2 ^ 1015 \<le> r / 16" using r1 by simp
  then have P15: "1 / 2 ^ 1015 \<le> P" using Pr(2) by simp
  have g: "P - P / 2 ^ 52 \<le> g" "g \<le> P + P / 2 ^ 52"
    unfolding g_def' by (rule round_near_pos [OF P15])+
  have g0: "0 < g" "P / 2 \<le> g" "g \<le> 2 * P" using g P(3) by simp_all
  show "1 / 2 ^ 1010 \<le> g"
  proof -
    have "1 / 2 ^ 1010 \<le> r / 32" using r1 by simp
    then show ?thesis using g0(2) Pr(2) by simp
  qed
  show "g \<le> 2 ^ 1003" using g0(3) Pr(1) r2 by simp
  have q_hi: "r / g \<le> 32"
  proof -
    have "r \<le> 32 * g" using Pr(2) g0(2) by simp
    then show ?thesis using g0(1) by (simp add: field_simps)
  qed
  then show "r / g \<le> 32" .
  have q_lo: "1 / 4 \<le> r / g"
  proof -
    have "g \<le> 4 * r" using Pr(1) g0(3) by simp
    then show ?thesis using g0(1) by (simp add: field_simps)
  qed
  have "1 / 2 ^ 1015 \<le> r / g" using q_lo by (rule order_trans [rotated]) simp
  from round_near_pos [OF this]
  have z: "r / g - r / g / 2 ^ 52 \<le> z" "z \<le> r / g + r / g / 2 ^ 52"
    by (simp_all add: z_def)
  have rg: "r / g * g = r" using g0(1) by simp
  have zg_lo: "r - r / 2 ^ 52 \<le> z * g"
  proof -
    have "(r / g - r / g / 2 ^ 52) * g \<le> z * g"
      using z(1) g0(1) by (intro mult_right_mono) simp_all
    moreover have "(r / g - r / g / 2 ^ 52) * g = r / g * g - r / g * g / 2 ^ 52"
      by (simp add: algebra_simps)
    ultimately show ?thesis unfolding rg by simp
  qed
  have zg_hi: "z * g \<le> r + r / 2 ^ 52"
  proof -
    have "z * g \<le> (r / g + r / g / 2 ^ 52) * g"
      using z(2) g0(1) by (intro mult_right_mono) simp_all
    moreover have "(r / g + r / g / 2 ^ 52) * g = r / g * g + r / g * g / 2 ^ 52"
      by (simp add: algebra_simps)
    ultimately show ?thesis unfolding rg by simp
  qed
  have g15: "1 / 2 ^ 1015 \<le> g" using \<open>1 / 2 ^ 1010 \<le> g\<close> by (rule order_trans [rotated]) simp
  have m2: "2 * g - 2 * g / 2 ^ 52 \<le> binary64_round (2 * g)"
      "binary64_round (2 * g) \<le> 2 * g + 2 * g / 2 ^ 52"
    by (rule round_near_pos; use g15 g0(1) in linarith)+
  have m5: "5 * g - 5 * g / 2 ^ 52 \<le> binary64_round (5 * g)"
      "binary64_round (5 * g) \<le> 5 * g + 5 * g / 2 ^ 52"
    by (rule round_near_pos; use g15 g0(1) in linarith)+
  have m10: "10 * g - 10 * g / 2 ^ 52 \<le> binary64_round (10 * g)"
      "binary64_round (10 * g) \<le> 10 * g + 10 * g / 2 ^ 52"
    by (rule round_near_pos; use g15 g0(1) in linarith)+
  show "binary64_round s = s" by (simp add: s_def g_def)
  consider "z \<le> 1" | "1 < z" "z \<le> 2" | "2 < z" "z \<le> 5" | "5 < z" by linarith
  then have "r - r / 2 ^ 37 \<le> s \<and> s \<le> 5 * r / 2 + r / 2 ^ 36"
  proof cases
    case 1
    then have "z * g \<le> 1 * g" using g0(1) by (intro mult_right_mono) simp_all
    then have zg: "z * g \<le> g" by simp
    have s: "s = g" using 1 by (simp add: s_def)
    show ?thesis unfolding s using zg zg_lo g(2) P(1) r by simp
  next
    case 2
    have "z * g \<le> 2 * g" using 2(2) g0(1) by (intro mult_right_mono) simp_all
    moreover have "1 * g < z * g" using 2(1) g0(1) by (intro mult_strict_right_mono) simp_all
    moreover have s: "s = binary64_round (2 * g)" using 2 by (simp add: s_def)
    ultimately show ?thesis
      using m2 zg_lo zg_hi r by simp
  next
    case 3
    have "z * g \<le> 5 * g" using 3(2) g0(1) by (intro mult_right_mono) simp_all
    moreover have "2 * g < z * g" using 3(1) g0(1) by (intro mult_strict_right_mono) simp_all
    moreover have s: "s = binary64_round (5 * g)" using 3 by (simp add: s_def)
    ultimately show ?thesis
      using m5 zg_lo zg_hi r by simp
  next
    case 4
    have "5 * g < z * g" using 4 g0(1) by (intro mult_strict_right_mono) simp_all
    moreover have s: "s = binary64_round (10 * g)" using 4 by (simp add: s_def)
    ultimately show ?thesis
      using m10 zg_hi g(1) P(2) r by simp
  qed
  then show "r - r / 2 ^ 37 \<le> s" and "s \<le> 5 * r / 2 + r / 2 ^ 36" by simp_all
qed

subsection \<open>The tick computation on a range of ordinary size\<close>

lemma round_tenth: "0 \<le> binary64_round (1 / 10)" "binary64_round (1 / 10) \<le> 1 / 8"
proof -
  show "0 \<le> binary64_round (1 / 10)" by (rule round_nonneg) simp
  have "binary64_round (1 / 8) = 1 / 8"
    by (rule round_keeps_small [where k = 3 and N = "2 ^ 52"]) simp_all
  then show "binary64_round (1 / 10) \<le> 1 / 8"
    using binary64_round_mono [of "1 / 10" "1 / 8"] by simp
qed

lemma tiny_small: "(2::real) powr (- 1075) \<le> 1 / 2 ^ 60"
proof -
  have "(2::real) powr (- 1075) \<le> 2 powr (- 60)" by (rule powr_mono) simp_all
  also have "\<dots> = 1 / 2 ^ 60"
    using powr_realpow [of "2::real" 60] by (simp add: powr_minus_divide)
  finally show ?thesis .
qed

lemma round_four_fifths: "binary64_round (4 / 5) = 3602879701896397 / 2 ^ 52"
proof -
  have "round_half_even (4 / 5 * 2 ^ 53) = 7205759403792794"
    by (simp add: round_half_even_def Let_def)
  then show ?thesis
    using binary64_round_small [of 1 "4 / 5"] by simp
qed

lemma round_one_tenth: "binary64_round (1 / 10) = 3602879701896397 / 2 ^ 55"
proof -
  have "round_half_even (1 / 10 * 2 ^ 56) = 7205759403792794"
    by (simp add: round_half_even_def Let_def)
  then show ?thesis
    using binary64_round_small [of 4 "1 / 10"] by simp
qed

lemma round_ten_tenths: "binary64_round (10 * (3602879701896397 / 2 ^ 55)) = 1"
proof -
  have "round_half_even (10 * (3602879701896397 / 2 ^ 55) * 2 ^ 52) = 2 ^ 52"
    by (simp add: round_half_even_def Let_def)
  then show ?thesis
    using binary64_round_mid [of 0 "10 * (3602879701896397 / 2 ^ 55)"] by simp
qed

lemma round_4 [simp]: "binary64_round 4 = 4"
  by (rule round_keeps_mid [where k = 2 and N = "2 ^ 52"]) simp_all

lemma round_8 [simp]: "binary64_round 8 = 8"
  by (rule round_keeps_mid [where k = 3 and N = "2 ^ 52"]) simp_all

lemma log10_between:
  fixes x :: real
  assumes "10 powr a \<le> x" "x \<le> 10 powr b"
  shows "a \<le> log 10 x" "log 10 x \<le> b"
proof -
  have p: "0 < (10::real) powr a" by simp
  then have x: "0 < x" using assms(1) by linarith
  have "log 10 (10 powr a) \<le> log 10 x" by (rule log_mono) (use assms(1) in simp_all)
  moreover have "log 10 ((10::real) powr a) = a" by (rule log_powr_cancel) simp_all
  ultimately show "a \<le> log 10 x" by (simp only:)
  have "log 10 x \<le> log 10 (10 powr b)" by (rule log_mono) (use assms(2) x in simp_all)
  moreover have "log 10 ((10::real) powr b) = b" by (rule log_powr_cancel) simp_all
  ultimately show "log 10 x \<le> b" by (simp only:)
qed

lemma nice_ticks_chain:
  fixes mn mx :: real
  assumes D: "1 / 2 ^ 1000 \<le> mx - mn"
    and size: "\<bar>mn\<bar> \<le> 2 ^ 1000" "\<bar>mx\<bar> \<le> 2 ^ 1000"
    and ratio: "max \<bar>mn\<bar> \<bar>mx\<bar> \<le> 2 ^ 45 * (mx - mn)"
  defines "r \<equiv> binary64_round (binary64_round (mx - mn) / 5)"
  defines "g \<equiv> binary64_round (10 powr of_int \<lfloor>binary64_round (log 10 r)\<rfloor>)"
  defines "z \<equiv> binary64_round (r / g)"
  defines "s \<equiv> (if z \<le> 1 then g else if z \<le> 2 then binary64_round (2 * g)
                  else if z \<le> 5 then binary64_round (5 * g) else binary64_round (10 * g))"
  defines "t0 \<equiv> binary64_round (of_int \<lceil>binary64_round (mn / s)\<rceil> * s)"
  defines "b \<equiv> binary64_round (mx + binary64_round (s * binary64_round (1 / 10)))"
  shows "calculateNiceTicks mn mx 6 = tick_loop (Finite b) (Finite s) (Finite t0) []"
    and "(mx - mn) / 5 - (mx - mn) / 2 ^ 36 \<le> s"
    and "s \<le> (mx - mn) / 2 + (mx - mn) / 2 ^ 36"
    and "binary64_round s = s"
    and "mn - (\<bar>mn\<bar> + s) / 2 ^ 50 \<le> t0" and "t0 \<le> mn + s + (\<bar>mn\<bar> + s) / 2 ^ 50"
    and "mx - (\<bar>mx\<bar> + s) / 2 ^ 52 \<le> b" and "b \<le> mx + s + (\<bar>mx\<bar> + s) / 2 ^ 52"
    and "\<bar>mn\<bar> \<le> 2 ^ 48 * s" and "\<bar>mx\<bar> \<le> 2 ^ 48 * s"
proof -
  define D where "D = mx - mn"
  define v where "v = binary64_round D"
  define L where "L = binary64_round (log 10 r)"
  define q where "q = binary64_round (mn / s)"
  define c where "c = real_of_int \<lceil>q\<rceil>"
  define w where "w = binary64_round (s * binary64_round (1 / 10))"
  have D0: "1 / 2 ^ 1000 \<le> D" using D by (simp add: D_def)
  have D1: "D \<le> 2 ^ 1001" using size by (simp add: D_def)
  have Dpos: "0 < D" using D0 by (rule less_le_trans [rotated]) simp
  have r_def': "r = binary64_round (v / 5)" by (simp add: r_def v_def D_def)
  have "1 / 2 ^ 1015 \<le> D" using D0 by (rule order_trans [rotated]) simp
  from round_near_pos [OF this]
  have v: "D - D / 2 ^ 52 \<le> v" "v \<le> D + D / 2 ^ 52" by (simp_all add: v_def)
  have "1 / 2 ^ 1015 \<le> D / 16" using D0 by simp
  then have "1 / 2 ^ 1015 \<le> v / 5" using v(1) Dpos by simp
  from round_near_pos [OF this]
  have r: "v / 5 - v / 5 / 2 ^ 52 \<le> r" "r \<le> v / 5 + v / 5 / 2 ^ 52" by (simp_all add: r_def')
  have rD: "D / 5 - D / 2 ^ 50 \<le> r" "r \<le> D / 5 + D / 2 ^ 50" using v r Dpos by simp_all
  have r1: "1 / 2 ^ 1004 \<le> r"
  proof -
    have "1 / 2 ^ 1004 \<le> D / 16" using D0 by simp
    then show ?thesis using rD(1) Dpos by simp
  qed
  have r2: "r \<le> 2 ^ 1001" using rD(2) D1 Dpos by simp
  have rpos: "0 < r" using r1 by (rule less_le_trans [rotated]) simp
  note ns = nice_step_bounds [OF r1 r2, folded g_def, folded z_def, folded s_def]
  have s_lo: "D / 5 - D / 2 ^ 36 \<le> s" using ns(1) rD(1) Dpos rpos by simp
  have s_hi: "s \<le> D / 2 + D / 2 ^ 36" using ns(2) rD(2) Dpos rpos by simp
  show "(mx - mn) / 5 - (mx - mn) / 2 ^ 36 \<le> s" using s_lo by (simp add: D_def)
  show "s \<le> (mx - mn) / 2 + (mx - mn) / 2 ^ 36" using s_hi by (simp add: D_def)
  show s_double: "binary64_round s = s" by (rule ns(3))
  have Ds: "D \<le> 8 * s" using s_lo Dpos by simp
  have spos: "0 < s" using Ds Dpos by simp
  have s1: "1 / 2 ^ 1003 \<le> s"
  proof -
    have "1 / 2 ^ 1003 \<le> D / 8" using D0 by simp
    then show ?thesis using Ds by simp
  qed
  have s2: "s \<le> 2 ^ 1001" using s_hi D1 Dpos by simp
  have "2 ^ 45 * D \<le> 2 ^ 45 * (8 * s)" using Ds by (intro mult_left_mono) simp_all
  then have "max \<bar>mn\<bar> \<bar>mx\<bar> \<le> 2 ^ 48 * s" using ratio by (simp add: D_def)
  then show mn_s: "\<bar>mn\<bar> \<le> 2 ^ 48 * s" and mx_s: "\<bar>mx\<bar> \<le> 2 ^ 48 * s" by simp_all
  have qs: "\<bar>mn / s\<bar> \<le> 2 ^ 48" using mn_s spos by (simp add: field_simps)
  have "\<bar>q - mn / s\<bar> \<le> \<bar>mn / s\<bar> / 2 ^ 53 + 2 powr (- 1075)"
    unfolding q_def by (rule binary64_round_rel_error)
  then have "\<bar>q - mn / s\<bar> \<le> \<bar>mn / s\<bar> / 2 ^ 53 + 1 / 2 ^ 60" using tiny_small by linarith
  then have "\<bar>q - mn / s\<bar> * s \<le> (\<bar>mn / s\<bar> / 2 ^ 53 + 1 / 2 ^ 60) * s"
    using spos by (intro mult_right_mono) simp_all
  moreover have "\<bar>q - mn / s\<bar> * s = \<bar>q * s - mn\<bar>"
  proof -
    have "(q - mn / s) * s = q * s - mn" using spos by (simp add: algebra_simps)
    then have "\<bar>q * s - mn\<bar> = \<bar>q - mn / s\<bar> * \<bar>s\<bar>" by (simp only: abs_mult [symmetric])
    then show ?thesis using spos by simp
  qed
  moreover have "(\<bar>mn / s\<bar> / 2 ^ 53 + 1 / 2 ^ 60) * s = \<bar>mn\<bar> / 2 ^ 53 + s / 2 ^ 60"
    using spos by (simp add: abs_of_pos algebra_simps add_divide_distrib)
  ultimately have qerr: "\<bar>q * s - mn\<bar> \<le> \<bar>mn\<bar> / 2 ^ 53 + s / 2 ^ 60" by simp
  have cq: "q \<le> c" "c \<le> q + 1" unfolding c_def by linarith+
  have "q * s \<le> c * s" using cq(1) spos by (intro mult_right_mono) simp_all
  moreover have "c * s \<le> (q + 1) * s" using cq(2) spos by (intro mult_right_mono) simp_all
  ultimately have cs: "q * s \<le> c * s" "c * s \<le> q * s + s" by (simp_all add: algebra_simps)
  have cs_lo: "mn - \<bar>mn\<bar> / 2 ^ 53 - s / 2 ^ 60 \<le> c * s"
    and cs_hi: "c * s \<le> mn + s + \<bar>mn\<bar> / 2 ^ 53 + s / 2 ^ 60"
    using cs qerr by linarith+
  have cs_abs: "\<bar>c * s\<bar> \<le> 2 * (\<bar>mn\<bar> + s)" using cs_lo cs_hi spos by simp
  have s15: "1 / 2 ^ 1015 \<le> s" by (rule order_trans [OF _ s1]) simp
  have S0: "1 / 2 ^ 1015 \<le> 2 * (\<bar>mn\<bar> + s)"
  proof -
    have "s \<le> 2 * (\<bar>mn\<bar> + s)" using spos by simp
    with s15 show ?thesis by (rule order_trans)
  qed
  have t0_def': "t0 = binary64_round (c * s)" by (simp add: t0_def c_def q_def)
  have terr: "\<bar>t0 - c * s\<bar> \<le> 2 * (\<bar>mn\<bar> + s) / 2 ^ 52"
    unfolding t0_def' by (rule round_near [OF S0 cs_abs])
  have t1: "c * s - 2 * (\<bar>mn\<bar> + s) / 2 ^ 52 \<le> t0" "t0 \<le> c * s + 2 * (\<bar>mn\<bar> + s) / 2 ^ 52"
    using terr by linarith+
  have e1: "\<bar>mn\<bar> / 2 ^ 53 + s / 2 ^ 60 + 2 * (\<bar>mn\<bar> + s) / 2 ^ 52 \<le> (\<bar>mn\<bar> + s) / 2 ^ 50"
  proof -
    have "a / 2 ^ 53 + s / 2 ^ 60 + 2 * (a + s) / 2 ^ 52 \<le> (a + s) / 2 ^ 50" if "0 \<le> a" for a :: real
      using that spos by (simp add: add_divide_distrib)
    then show ?thesis by simp
  qed
  show t_lo: "mn - (\<bar>mn\<bar> + s) / 2 ^ 50 \<le> t0" using t1(1) cs_lo e1 by linarith
  show t_hi: "t0 \<le> mn + s + (\<bar>mn\<bar> + s) / 2 ^ 50" using t1(2) cs_hi e1 by linarith
  have sc: "0 \<le> s * binary64_round (1 / 10)" "s * binary64_round (1 / 10) \<le> s"
  proof -
    show "0 \<le> s * binary64_round (1 / 10)" using spos round_tenth(1) by simp
    have "s * binary64_round (1 / 10) \<le> s * 1"
      using round_tenth(2) spos by (intro mult_left_mono) simp_all
    then show "s * binary64_round (1 / 10) \<le> s" by simp
  qed
  have w: "0 \<le> w" "w \<le> s"
  proof -
    show "0 \<le> w" unfolding w_def by (rule round_nonneg [OF sc(1)])
    show "w \<le> s" using binary64_round_mono [OF sc(2)] s_double by (simp add: w_def)
  qed
  have mw: "\<bar>mx + w\<bar> \<le> \<bar>mx\<bar> + s" using w by simp
  have S1: "1 / 2 ^ 1015 \<le> \<bar>mx\<bar> + s"
  proof -
    have "1 / 2 ^ 1015 \<le> (1 / 2 ^ 1003 :: real)" by simp
    then show ?thesis using s1 spos by linarith
  qed
  have b_def': "b = binary64_round (mx + w)" by (simp add: b_def w_def)
  have berr: "\<bar>b - (mx + w)\<bar> \<le> (\<bar>mx\<bar> + s) / 2 ^ 52"
    unfolding b_def' by (rule round_near [OF S1 mw])
  show "mx - (\<bar>mx\<bar> + s) / 2 ^ 52 \<le> b" using berr w by linarith
  show "b \<le> mx + s + (\<bar>mx\<bar> + s) / 2 ^ 52" using berr w by linarith
  have f1: "fl (mx - mn) = Finite v"
    unfolding v_def D_def by (rule fl_finite) (use D1 Dpos in \<open>simp add: D_def\<close>)
  have f2: "fl (v / 5) = Finite r"
    unfolding r_def' by (rule fl_finite) (use v D1 Dpos in simp)
  have f3: "fl (log 10 r) = Finite L"
    unfolding L_def
  proof (rule fl_finite)
    have "\<bar>log 10 r\<bar> \<le> 2 ^ 10" by (rule log10_size [OF r1 r2])
    then show "\<bar>log 10 r\<bar> \<le> 2 ^ 1023" by simp
  qed
  have g_def': "g = binary64_round (10 powr of_int \<lfloor>L\<rfloor>)" by (simp add: g_def L_def)
  have gpos: "0 < g" using ns(4) by (rule less_le_trans [rotated]) simp
  have f4: "fl (10 powr of_int \<lfloor>L\<rfloor>) = Finite g"
    unfolding fl_def Let_def g_def' [symmetric] using ns(5) gpos by simp
  have f5: "fl (r / g) = Finite z"
    unfolding z_def by (rule fl_finite) (use ns(6) rpos gpos in simp)
  have f6: "fl (2 * g) = Finite (binary64_round (2 * g))"
    "fl (5 * g) = Finite (binary64_round (5 * g))"
    "fl (10 * g) = Finite (binary64_round (10 * g))"
    by (rule fl_finite; use ns(5) gpos in simp)+
  have f7: "fl (mn / s) = Finite q"
    unfolding q_def by (rule fl_finite) (use qs in simp)
  have f8: "fl (c * s) = Finite t0"
    unfolding t0_def' by (rule fl_finite) (use cs_abs size s2 in simp)
  have f9: "fl (1 / 10) = Finite (binary64_round (1 / 10))"
    by (rule fl_finite) simp
  have f10: "fl (s * binary64_round (1 / 10)) = Finite w"
    unfolding w_def by (rule fl_finite) (use sc s2 in simp)
  have f11: "fl (mx + w) = Finite b"
    unfolding b_def' by (rule fl_finite) (use mw size s2 in simp)
  have step: "(if z \<le> 1 then Finite g
               else if z \<le> 2 then d_mul (Finite 2) (Finite g)
               else if z \<le> 5 then d_mul (Finite 5) (Finite g)
               else d_mul (Finite 10) (Finite g)) = Finite s"
    by (simp add: s_def f6)
  have "d_sub (Finite mx) (Finite mn) = Finite v" by (simp add: d_sub_def f1)
  moreover have "d_div (Finite v) (Finite (of_int (6 - 1))) = Finite r" by (simp add: f2)
  moreover have "d_pow10 (d_floor (d_log10 (Finite r))) = Finite g" using rpos by (simp add: f3 f4)
  moreover have "d_div (Finite r) (Finite g) = Finite z" using gpos by (simp add: f5)
  moreover have "d_mul (d_ceil (d_div (Finite mn) (Finite s))) (Finite s) = Finite t0"
    using spos by (simp add: f7 f8 [unfolded c_def])
  moreover have "d_add (Finite mx) (d_mul (Finite s) (fl (1 / 10))) = Finite b"
    by (simp add: f9 f10 f11)
  ultimately show "calculateNiceTicks mn mx 6 = tick_loop (Finite b) (Finite s) (Finite t0) []"
    unfolding calculateNiceTicks_def Let_def by (simp only: d_le.simps step)
qed

subsection \<open>The tick loop\<close>

lemma tick_loop_returns:
  assumes "\<And>k. k < n \<Longrightarrow> (grid_next s ^^ k) t \<le> b" "\<not> (grid_next s ^^ n) t \<le> b"
    and "\<And>k. k < n \<Longrightarrow> \<bar>(grid_next s ^^ k) t + s\<bar> \<le> 2 ^ 1023"
  shows "tick_loop (Finite b) (Finite s) (Finite t) acc
           = Some (acc @ map (\<lambda>k. Finite ((grid_next s ^^ k) t)) [0..<n])"
  using assms
proof (induction n arbitrary: t acc)
  case 0
  then show ?case by (subst tick_loop.simps) simp
next
  case (Suc n)
  have tb: "t \<le> b" using Suc.prems(1) [of 0] by simp
  have "\<bar>t + s\<bar> \<le> 2 ^ 1023" using Suc.prems(3) [of 0] by simp
  then have add: "fl (t + s) = Finite (grid_next s t)"
    by (simp add: fl_finite grid_next_def)
  have 1: "(grid_next s ^^ k) (grid_next s t) \<le> b" if "k < n" for k
    using Suc.prems(1) [of "Suc k"] that by (simp add: funpow_swap1)
  have 2: "\<not> (grid_next s ^^ n) (grid_next s t) \<le> b"
    using Suc.prems(2) by (simp add: funpow_swap1)
  have 3: "\<bar>(grid_next s ^^ k) (grid_next s t) + s\<bar> \<le> 2 ^ 1023" if "k < n" for k
    using Suc.prems(3) [of "Suc k"] that by (simp add: funpow_swap1)
  have "tick_loop (Finite b) (Finite s) (Finite t) acc
          = tick_loop (Finite b) (Finite s) (Finite (grid_next s t)) (acc @ [Finite t])"
    using tb by (subst tick_loop.simps) (simp add: add)
  also have "\<dots> = Some ((acc @ [Finite t])
                      @ map (\<lambda>k. Finite ((grid_next s ^^ k) (grid_next s t))) [0..<n])"
    by (rule Suc.IH [OF 1 2 3])
  also have "(acc @ [Finite t]) @ map (\<lambda>k. Finite ((grid_next s ^^ k) (grid_next s t))) [0..<n]
               = acc @ map (\<lambda>k. Finite ((grid_next s ^^ k) t)) [0..<Suc n]"
    by (simp add: upt_conv_Cons map_Suc_upt [symmetric] grid_next_funpow
        del: upt_Suc funpow.simps)
  finally show ?case .
qed

lemma tick_loop_stuck:
  assumes "t \<le> b" "binary64_round (t + s) = t" "\<bar>t + s\<bar> \<le> 2 ^ 1023"
  shows "tick_loop (Finite b) (Finite s) (Finite t) acc = None"
proof (cases "tick_loop (Finite b) (Finite s) (Finite t) acc")
  case (Some ys)
  have add: "d_add (Finite t) (Finite s) = Finite t"
    using assms(2,3) by (simp add: fl_finite)
  have "\<not> (Finite b = Finite b \<and> Finite s = Finite s \<and> Finite t = Finite t)"
  proof (rule tick_loop.raw_induct
      [where P = "\<lambda>b' s' t' acc ys. \<not> (b' = Finite b \<and> s' = Finite s \<and> t' = Finite t)",
        OF _ Some])
    fix loop :: "double \<Rightarrow> double \<Rightarrow> double \<Rightarrow> double list \<Rightarrow> double list option"
    fix b' s' t' :: double and acc ys :: "double list"
    assume IH: "\<And>b' s' t' acc ys. loop b' s' t' acc = Some ys
                   \<Longrightarrow> \<not> (b' = Finite b \<and> s' = Finite s \<and> t' = Finite t)"
      and body: "(if d_le t' b' then loop b' s' (d_add t' s') (acc @ [t']) else Some acc) = Some ys"
    show "\<not> (b' = Finite b \<and> s' = Finite s \<and> t' = Finite t)"
    proof
      assume a: "b' = Finite b \<and> s' = Finite s \<and> t' = Finite t"
      then have "loop (Finite b) (Finite s) (Finite t) (acc @ [Finite t]) = Some ys"
        using body assms(1) add by simp
      from IH [OF this] show False by simp
    qed
  qed
  then show ?thesis by simp
qed simp

lemma calculateNiceTicks_shape:
  fixes mn mx :: real
  assumes D: "1 / 2 ^ 1000 \<le> mx - mn"
    and size: "\<bar>mn\<bar> \<le> 2 ^ 1000" "\<bar>mx\<bar> \<le> 2 ^ 1000"
    and ratio: "max \<bar>mn\<bar> \<bar>mx\<bar> \<le> 2 ^ 45 * (mx - mn)"
  defines "r \<equiv> binary64_round (binary64_round (mx - mn) / 5)"
  defines "g \<equiv> binary64_round (10 powr of_int \<lfloor>binary64_round (log 10 r)\<rfloor>)"
  defines "z \<equiv> binary64_round (r / g)"
  defines "s \<equiv> (if z \<le> 1 then g else if z \<le> 2 then binary64_round (2 * g)
                  else if z \<le> 5 then binary64_round (5 * g) else binary64_round (10 * g))"
  defines "t0 \<equiv> binary64_round (of_int \<lceil>binary64_round (mn / s)\<rceil> * s)"
  defines "b \<equiv> binary64_round (mx + binary64_round (s * binary64_round (1 / 10)))"
  shows "\<exists>n. 0 < n \<and>
           calculateNiceTicks mn mx 6 = Some (map (\<lambda>j. Finite ((grid_next s ^^ j) t0)) [0..<n]) \<and>
           (\<forall>j. j < n \<longleftrightarrow> (grid_next s ^^ j) t0 \<le> b) \<and>
           sorted_wrt (<) (map (\<lambda>j. (grid_next s ^^ j) t0) [0..<n])"
proof -
  let ?g = "\<lambda>j. (grid_next s ^^ j) t0"
  note ch = nice_ticks_chain [OF D size ratio, folded r_def, folded g_def, folded z_def,
      folded s_def, folded t0_def, folded b_def]
  define Dd where "Dd = mx - mn"
  have Dpos: "0 < Dd" using D unfolding Dd_def by (rule less_le_trans [rotated]) simp
  have sD: "Dd / 5 - Dd / 2 ^ 36 \<le> s" "s \<le> Dd / 2 + Dd / 2 ^ 36"
    using ch(2,3) by (simp_all add: Dd_def)
  have spos: "0 < s" using sD(1) Dpos by simp
  have s0: "0 \<le> s" using spos by simp
  have t0d: "binary64_round t0 = t0" by (simp add: t0_def)
  have mnD: "\<bar>mn\<bar> \<le> 2 ^ 45 * Dd" "\<bar>mx\<bar> \<le> 2 ^ 45 * Dd" using ratio by (simp_all add: Dd_def)
  have e1: "(\<bar>mn\<bar> + s) / 2 ^ 50 \<le> Dd / 16" using mnD(1) sD(2) Dpos by simp
  have e2: "(\<bar>mx\<bar> + s) / 2 ^ 52 \<le> Dd / 16" using mnD(2) sD(2) Dpos by simp
  have "s + Dd / 16 + Dd / 16 \<le> Dd" using sD(2) Dpos by simp
  moreover have "mx = mn + Dd" by (simp add: Dd_def)
  ultimately have "mn + s + Dd / 16 \<le> mx - Dd / 16" by linarith
  then have t0b: "t0 \<le> b" using ch(6,7) e1 e2 by linarith
  have tb: "\<bar>t0\<bar> \<le> 2 ^ 49 * s" "\<bar>b\<bar> \<le> 2 ^ 49 * s"
  proof -
    have a: "(\<bar>mn\<bar> + s) / 2 ^ 50 \<le> s" using ch(9) spos by simp
    have b: "(\<bar>mx\<bar> + s) / 2 ^ 52 \<le> s" using ch(10) spos by simp
    have c: "\<bar>mn\<bar> + 2 * s \<le> 2 ^ 49 * s" "\<bar>mx\<bar> + 2 * s \<le> 2 ^ 49 * s" using ch(9,10) spos by simp_all
    show "\<bar>t0\<bar> \<le> 2 ^ 49 * s" using ch(5,6) a c(1) by linarith
    show "\<bar>b\<bar> \<le> 2 ^ 49 * s" using ch(7,8) b c(2) by linarith
  qed
  have "2 ^ 49 * s \<le> 2 ^ 51 * s" using spos by simp
  then have "max \<bar>t0\<bar> \<bar>b\<bar> \<le> 2 ^ 51 * s" using tb by simp
  from grid_leaves_bound [OF spos ch(4) this]
  have "\<exists>ys. x_grid_loop b s t0 [] = Some ys" unfolding x_grid_loop_Some_iff .
  then obtain ys where "x_grid_loop b s t0 [] = Some ys" ..
  from x_grid_loop_result [OF this]
  obtain n where out: "\<not> ?g n \<le> b" and inside: "\<And>k. k < n \<Longrightarrow> ?g k \<le> b" by blast
  have n: "0 < n" using out t0b by (cases n) auto
  have big: "\<bar>t0\<bar> \<le> 2 ^ 1003" "\<bar>b\<bar> \<le> 2 ^ 1003" "s \<le> 2 ^ 1003"
  proof -
    have D1: "Dd \<le> 2 ^ 1001" using size by (simp add: Dd_def)
    then show s3: "s \<le> 2 ^ 1003" using sD(2) Dpos by simp
    have a: "(\<bar>mn\<bar> + s) / 2 ^ 50 \<le> s" using ch(9) spos by simp
    have b: "(\<bar>mx\<bar> + s) / 2 ^ 52 \<le> s" using ch(10) spos by simp
    have s1: "s \<le> 2 ^ 1001" using sD(2) D1 Dpos by simp
    have "\<bar>t0\<bar> \<le> \<bar>mn\<bar> + 2 * s" using ch(5,6) a by linarith
    then show "\<bar>t0\<bar> \<le> 2 ^ 1003" using size(1) s1 by simp
    have "\<bar>b\<bar> \<le> \<bar>mx\<bar> + 2 * s" using ch(7,8) b by linarith
    then show "\<bar>b\<bar> \<le> 2 ^ 1003" using size(2) s1 by simp
  qed
  have fin: "\<bar>?g k + s\<bar> \<le> 2 ^ 1023" if "k < n" for k
  proof -
    have "?g 0 \<le> ?g (0 + k)" by (rule grid_iterates_increase [OF s0 t0d])
    then have "t0 \<le> ?g k" by simp
    moreover have "?g k \<le> b" by (rule inside [OF that])
    ultimately have "\<bar>?g k\<bar> \<le> 2 ^ 1003" using big(1,2) by simp
    then show ?thesis using big(3) spos by simp
  qed
  have ret: "calculateNiceTicks mn mx 6 = Some (map (\<lambda>j. Finite (?g j)) [0..<n])"
    unfolding ch(1) using tick_loop_returns [of n s t0 b "[]", OF inside out fin] by simp
  have iff: "j < n \<longleftrightarrow> ?g j \<le> b" for j
  proof
    assume "j < n" then show "?g j \<le> b" by (rule inside)
  next
    assume a: "?g j \<le> b"
    show "j < n"
    proof (rule ccontr)
      assume "\<not> j < n"
      then have "?g n \<le> ?g (n + (j - n))" "n + (j - n) = j"
        using grid_iterates_increase [OF s0 t0d, of n "j - n"] by simp_all
      then show False using a out by simp
    qed
  qed
  have strict: "?g k < ?g (Suc k)" if "Suc k < n" for k
  proof -
    have "k < n" using that by simp
    from grid_iterates_strict [OF s0 t0d inside [OF this] out] show ?thesis .
  qed
  have sorted: "sorted_wrt (<) (map ?g [0..<n])"
    by (rule sorted_wrt_map_upt) (rule strict)
  have "0 < n \<and> calculateNiceTicks mn mx 6 = Some (map (\<lambda>j. Finite (?g j)) [0..<n]) \<and>
      (\<forall>j. j < n \<longleftrightarrow> ?g j \<le> b) \<and> sorted_wrt (<) (map ?g [0..<n])"
    using n ret iff sorted by blast
  then show ?thesis by (rule exI [of _ n])
qed



subsection \<open>A range next to \<open>2 ^ 53\<close>\<close>

lemma floor_log10_four_fifths:
  fixes r :: real
  assumes "r = 3602879701896397 / 2 ^ 52"
  shows "\<lfloor>binary64_round (log 10 r)\<rfloor> = - 1" "\<bar>log 10 r\<bar> \<le> 2 ^ 1023"
proof -
  have r: "0 < r" "1 / 10 \<le> r" "r - 1 \<le> - (1 / 8)" by (simp_all add: assms)
  have "log 10 (1 / 10) \<le> log 10 r"
    by (rule log_mono) (use r in simp_all)
  moreover have "log 10 (1 / 10 :: real) = - 1"
    using log_inverse [of 10 "10::real"] by (simp add: inverse_eq_divide)
  ultimately have "- 1 \<le> log 10 r" by simp
  from binary64_round_mono [OF this]
  have lo: "- 1 \<le> binary64_round (log 10 r)" by (simp add: binary64_round_minus)
  have "ln r \<le> r - 1" by (rule ln_le_minus_one) (rule r(1))
  then have lnr: "ln r \<le> - (1 / 8)" using r(3) by linarith
  have "log 10 r = ln r / ln 10" by (simp add: log_def)
  also have "\<dots> \<le> - (1 / 8) / ln 10"
    by (rule divide_right_mono [OF lnr]) (use ln_10_bounds in simp)
  also have "\<dots> \<le> - (1 / 8) / 4"
  proof -
    have "1 / 8 / 4 \<le> 1 / 8 / ln (10::real)"
      by (rule divide_left_mono) (use ln_10_bounds in simp_all)
    then show ?thesis by simp
  qed
  finally have "log 10 r \<le> - (1 / 32)" by simp
  from binary64_round_mono [OF this]
  have "binary64_round (log 10 r) \<le> - binary64_round (1 / 32)"
    by (simp add: binary64_round_minus)
  moreover have "binary64_round (1 / 32) = 1 / 32"
    by (rule round_keeps_small [where k = 5 and N = "2 ^ 52"]) simp_all
  ultimately have hi: "binary64_round (log 10 r) < 0" by simp
  show "\<lfloor>binary64_round (log 10 r)\<rfloor> = - 1" using lo hi by (simp add: floor_eq_iff)
  have "\<bar>log 10 r\<bar> \<le> 2 ^ 10" by (rule log10_size) (simp_all add: assms)
  then show "\<bar>log 10 r\<bar> \<le> 2 ^ 1023" by simp
qed

lemma nice_ticks_stall:
  fixes A :: real
  assumes A: "A = 2 ^ 53"
  shows "calculateNiceTicks A (A + 4) 6 = None"
proof -
  define r :: real where "r = 3602879701896397 / 2 ^ 52"
  define c :: real where "c = 3602879701896397 / 2 ^ 55"
  have rA: "binary64_round A = A" unfolding A by (rule round_2p53)
  have rpos: "0 < r" "c \<noteq> 0" by (simp_all add: r_def c_def)
  have f1: "fl 4 = Finite 4" by (simp add: fl_finite)
  have f2: "fl (4 / 5) = Finite r" by (simp add: fl_finite round_four_fifths r_def)
  have f3: "d_floor (fl (log 10 r)) = Finite (- 1)"
    using floor_log10_four_fifths [OF r_def] by (simp add: fl_finite)
  have "(10::real) powr (- 1) = 1 / 10" by (simp add: powr_minus_divide)
  then have f4: "fl (10 powr (- 1)) = Finite c" by (simp add: fl_finite round_one_tenth c_def)
  have "r / c = 8" by (simp add: r_def c_def)
  then have f5: "fl (r / c) = Finite 8" by (simp add: fl_finite)
  have f6: "fl (10 * c) = Finite 1" using round_ten_tenths by (simp add: fl_finite c_def)
  have f7: "fl A = Finite A" using rA by (simp add: fl_finite A)
  have f8: "fl (1 / 10) = Finite c" by (simp add: fl_finite round_one_tenth c_def)
  have "binary64_round c = c"
    using binary64_round_idem [of "1 / 10"] unfolding round_one_tenth c_def .
  then have f9: "fl c = Finite c" by (simp add: fl_finite c_def)
  have bnd: "binary64_round (A + 4 + c) = A + 4"
  proof -
    have "round_half_even ((2 ^ 53 + 4 + 3602879701896397 / 2 ^ 55) / 2 ^ 1) = 2 ^ 52 + 2"
      by (simp add: round_half_even_def Let_def)
    then show ?thesis
      unfolding A c_def
      using binary64_round_large [of 53 "2 ^ 53 + 4 + 3602879701896397 / 2 ^ 55"] by simp
  qed
  have f10: "fl (A + 4 + c) = Finite (A + 4)" using bnd by (simp add: fl_finite A c_def)
  have stuck: "binary64_round (A + 1) = A" unfolding A by (rule binary64_round_absorbs)
  have "d_sub (Finite (A + 4)) (Finite A) = Finite 4" by (simp add: d_sub_def f1)
  moreover have "d_div (Finite 4) (Finite (of_int (6 - 1))) = Finite r" using f2 by simp
  moreover have "d_pow10 (d_floor (d_log10 (Finite r))) = Finite c" using f3 f4 rpos by simp
  moreover have "d_div (Finite r) (Finite c) = Finite 8" using f5 rpos by simp
  moreover have "d_mul (Finite 10) (Finite c) = Finite 1" using f6 by simp
  moreover have "d_mul (d_ceil (d_div (Finite A) (Finite 1))) (Finite 1) = Finite A"
    using f7 by (simp add: A)
  moreover have "d_add (Finite (A + 4)) (d_mul (Finite 1) (fl (1 / 10))) = Finite (A + 4)"
    using f9 f10 by (simp add: f8)
  moreover have "tick_loop (Finite (A + 4)) (Finite 1) (Finite A) [] = None"
    by (rule tick_loop_stuck) (use stuck in \<open>simp_all add: A\<close>)
  ultimately show ?thesis
    unfolding calculateNiceTicks_def Let_def by (simp only: d_le.simps) simp
qed


section \<open>Export of an unsupported format\<close>

lemma spectra_loop_no_error:
  assumes "\<forall>f \<in> set files. open_input can_open f \<noteq> None"
  shows "spectra_loop can_open p files i acc \<noteq> Some (Inl msg)"
  using assms
proof (induction files arbitrary: i acc)
  case Nil
  then show ?case by simp
next
  case (Cons f fs)
  then obtain full where "open_input can_open f = Some full" by auto
  then have one: "calculate_single_spectrum can_open f p i = map_option Inr (synthesize p i)"
    by (simp add: calculate_single_spectrum_def)
  show ?case
  proof (cases "synthesize p i")
    case None
    then show ?thesis by (simp add: one)
  next
    case (Some c)
    then show ?thesis using Cons.IH [of "i + 1" "acc @ [c]"] Cons.prems by (simp add: one)
  qed
qed

text \<open>
  Claim C1, at the failing inputs. For an output format without an export branch, on every
  run that has input files, all of which open, and that returns (the grid loop and both tick
  loops end, and the curves have samples): no file is written, and yet the process prints
  that the plot was exported and that processing completed, prints nothing on the error
  channel and exits with code 0.
\<close>

theorem unsupported_format_exits_zero:
  assumes "output_format p \<notin> supported_formats"
    and "input_filenames p \<noteq> []"
    and "\<forall>f \<in> set (input_filenames p). open_input can_open f \<noteq> None"
    and "main_run can_open p \<noteq> None"
  shows "main_run can_open p =
           Some \<lparr> exit_code = 0, error_output = [],
                  closing_output =
                    [''Plot exported to: '' @ output_filename p @ ''.'' @ output_format p,
                     ''Processing completed successfully!''],
                  artifact = None \<rparr>"
proof -
  have ex: "exported_file p = None"
    using assms(1) by (simp add: exported_file_def supported_formats_def)
  have no: "spectra_loop can_open p (input_filenames p) 0 [] \<noteq> Some (Inl msg)" for msg
    by (rule spectra_loop_no_error [OF assms(3)])
  show ?thesis
  proof (cases "calculate_multiple_spectra can_open p")
    case None
    then show ?thesis using assms(2,4) by (simp add: main_run_def)
  next
    case (Some res)
    show ?thesis
    proof (cases res)
      case (Inl msg)
      then have "spectra_loop can_open p (input_filenames p) 0 [] = Some (Inl msg)"
        using Some
        by (auto simp: calculate_multiple_spectra_def split: option.splits sum.splits if_splits)
      then show ?thesis using no by simp
    next
      case (Inr spectra)
      show ?thesis
      proof (cases "create_and_export_multiple_plots spectra p")
        case None
        then show ?thesis using assms(2,4) Some Inr by (simp add: main_run_def)
      next
        case (Some chart)
        then have "export_report chart = ''Plot exported to: '' @ full_output_name p"
          "written_file chart = exported_file p"
          by (auto simp: create_and_export_multiple_plots_def
              split: if_splits option.splits prod.splits)
        then show ?thesis
          using assms(2) \<open>calculate_multiple_spectra can_open p = Some res\<close> Inr Some ex
          by (simp add: main_run_def full_output_name_def)
      qed
    qed
  qed
qed

subsection \<open>A run that returns\<close>

lemma calculateNiceTicks_returns:
  fixes mn mx :: real
  assumes "1 / 2 ^ 1000 \<le> mx - mn" "\<bar>mn\<bar> \<le> 2 ^ 1000" "\<bar>mx\<bar> \<le> 2 ^ 1000"
    "max \<bar>mn\<bar> \<bar>mx\<bar> \<le> 2 ^ 45 * (mx - mn)"
  shows "\<exists>ticks. calculateNiceTicks mn mx 6 = Some ticks"
  using calculateNiceTicks_shape [OF assms] by blast

lemma exp_minus_301:
  fixes t :: real
  assumes "t \<le> 301"
  shows "1 / 2 ^ 999 \<le> exp (- t)"
proof -
  have "exp (301::real) = exp 1 ^ 301" using exp_of_nat_mult [of 301 "1::real"] by simp
  also have "\<dots> \<le> 3 ^ 301" by (rule power_mono) (use exp_le in simp_all)
  also have "\<dots> \<le> 2 ^ 999" by simp
  finally have "exp (301::real) \<le> 2 ^ 999" .
  then have "1 / 2 ^ 999 \<le> 1 / exp (301::real)"
    by (intro divide_left_mono) simp_all
  also have "\<dots> = exp (- 301)" by (simp add: exp_minus inverse_eq_divide)
  also have "\<dots> \<le> exp (- t)" using assms by simp
  finally show ?thesis .
qed

lemma abs_nm_bounds:
  assumes "0 \<le> x" "x \<le> 2"
  shows "1 / 2 ^ 999 \<le> abs_intensity ''nm'' 0 1 x" "abs_intensity ''nm'' 0 1 x \<le> 40000"
proof -
  let ?e1 = "exp (- ((x - 280) / 15)\<^sup>2)" and ?e2 = "exp (- ((x - 320) / 20)\<^sup>2)"
  let ?e3 = "exp (- ((x - 420) / 25)\<^sup>2)" and ?e4 = "exp (- ((x - 520) / 30)\<^sup>2)"
  have v: "abs_intensity ''nm'' 0 1 x = 15000 * ?e1 + 12000 * ?e2 + 8000 * ?e3 + 5000 * ?e4"
    by (simp add: abs_intensity_def)
  have pos: "0 < ?e1" "0 < ?e2" "0 < ?e3" "0 < ?e4" by simp_all
  have le: "?e1 \<le> 1" "?e2 \<le> 1" "?e3 \<le> 1" "?e4 \<le> 1" by simp_all
  have "\<bar>x - 520\<bar> \<le> 520" using assms by linarith
  then have "\<bar>x - 520\<bar> / 30 \<le> 520 / 30" by (rule divide_right_mono) simp
  then have "\<bar>(x - 520) / 30\<bar> \<le> 52 / 3" by simp
  then have "((x - 520) / 30)\<^sup>2 \<le> (52 / 3)\<^sup>2"
    by (subst abs_le_square_iff [symmetric]) simp
  also have "\<dots> \<le> (301::real)" by (simp add: power2_eq_square)
  finally have "1 / 2 ^ 999 \<le> ?e4" by (rule exp_minus_301)
  then show "1 / 2 ^ 999 \<le> abs_intensity ''nm'' 0 1 x"
    unfolding v using pos by linarith
  show "abs_intensity ''nm'' 0 1 x \<le> 40000" unfolding v using le by linarith
qed

lemma y_axis_range_positive:
  assumes "spectra \<noteq> []" and "\<forall>s \<in> set spectra. y_values s \<noteq> []"
    and "\<forall>y \<in> all_y_values spectra. a \<le> y \<and> y \<le> A"
    and "0 \<le> a" and "A \<le> DBL_MAX"
    and "mode p \<noteq> ''cd''" and "mode p \<noteq> ''cdl''"
  shows "\<exists>hi. y_axis_range spectra p = Some (0, hi) \<and> a \<le> hi \<and> hi \<le> A + A"
proof -
  let ?Y = "all_y_values spectra"
  obtain s where s: "s \<in> set spectra" using assms(1) by (cases spectra) auto
  then have "set (y_values s) \<noteq> {}" using assms(2) by simp
  then have ne: "?Y \<noteq> {}" using s by (auto simp: all_y_values_def)
  have "\<forall>y \<in> ?Y. \<bar>y\<bar> \<le> DBL_MAX" using assms(3,4,5) by fastforce
  note mm = Min_below_DBL_MAX [OF finite_all_y_values ne this]
  have "Min ?Y \<in> ?Y" "Max ?Y \<in> ?Y" using ne by simp_all
  then have b: "a \<le> Min ?Y" "Min ?Y \<le> A" "a \<le> Max ?Y" "Max ?Y \<le> A"
    using assms(3) by blast+
  have mM: "Min ?Y \<le> Max ?Y" using ne by simp
  define d where "d = (Max ?Y - Min ?Y) * 0.1"
  have d: "0 \<le> d" "d \<le> Max ?Y - Min ?Y" using mM by (simp_all add: d_def)
  have h: "a \<le> Max ?Y + d" "Max ?Y + d \<le> A + A"
    using b assms(4) d by linarith+
  have "y_axis_range spectra p = Some (0, Max ?Y + (Max ?Y - Min ?Y) * 0.1)"
    using assms(4,6,7) b(1)
    by (simp add: y_axis_range_def overall_y_loop_Min_Max [OF assms(2)] mm Let_def
        del: Min_insert Max_insert)
  then have "y_axis_range spectra p = Some (0, Max ?Y + d)" by (simp add: d_def)
  then show ?thesis using h by blast
qed

lemma gif_run_returns: "main_run (\<lambda>f. True) gif_params \<noteq> None"
proof -
  let ?p = gif_params
  define c where "c = \<lparr> x_values = [0, 1, 2],
      y_values = map (abs_intensity ''nm'' 0 1) [0, 1, 2],
      x_label = ''Wavelength (nm)'', y_label = abs_y_label, title = ''Absorption Spectra'' \<rparr>"
  have p: "x_start ?p = 0" "x_end ?p = 2" "interval ?p = 1" "mode ?p = ''abs''"
    "unit ?p = ''nm''" "input_filenames ?p = [''a.out'']"
    by (simp_all add: gif_params_def demo_params_def default_params_def)
  have syn: "synthesize ?p 0 = Some c"
    by (simp add: synthesize_def small_grid [OF p(1-3)] p Let_def c_def)
  have "open_input (\<lambda>f. True) ''a.out'' = Some ''a.out''" by (simp add: open_input_def)
  then have calc: "calculate_multiple_spectra (\<lambda>f. True) ?p = Some (Inr [c])"
    by (simp add: calculate_multiple_spectra_def p calculate_single_spectrum_def syn)
  have ys: "\<forall>y \<in> all_y_values [c]. 1 / 2 ^ 999 \<le> y \<and> y \<le> 40000"
    using abs_nm_bounds [of 0] abs_nm_bounds [of 1] abs_nm_bounds [of 2]
    by (simp add: all_y_values_def c_def)
  have "\<exists>hi. y_axis_range [c] ?p = Some (0, hi) \<and> 1 / 2 ^ 999 \<le> hi \<and> hi \<le> 40000 + 40000"
    by (rule y_axis_range_positive [OF _ _ ys]) (simp_all add: c_def p DBL_MAX_def)
  then obtain hi where hi: "y_axis_range [c] ?p = Some (0, hi)" "1 / 2 ^ 999 \<le> hi" "hi \<le> 80000"
    by auto
  have hpos: "0 < hi" using hi(2) by (rule less_le_trans [rotated]) simp
  have "\<exists>ticks. calculateNiceTicks 0 2 6 = Some ticks"
    by (rule calculateNiceTicks_returns) simp_all
  then obtain xt where xt: "calculateNiceTicks 0 2 6 = Some xt" ..
  have "1 / 2 ^ 1000 \<le> hi - 0"
  proof -
    have "(1 / 2 ^ 1000 :: real) \<le> 1 / 2 ^ 999" by simp
    then show ?thesis using hi(2) by simp
  qed
  moreover have "\<bar>hi\<bar> \<le> 2 ^ 1000" using hi(3) hpos by simp
  moreover have "max \<bar>0\<bar> \<bar>hi\<bar> \<le> 2 ^ 45 * (hi - 0)" using hpos by simp
  ultimately have "\<exists>ticks. calculateNiceTicks 0 hi 6 = Some ticks"
    by (intro calculateNiceTicks_returns) simp_all
  then obtain yt where yt: "calculateNiceTicks 0 hi 6 = Some yt" ..
  show ?thesis
    by (simp add: main_run_def p calc create_and_export_multiple_plots_def hi(1) xt yt)
qed

theorem unsupported_format_exits_zero_witness:
  "main_run (\<lambda>f. True) gif_params =
     Some \<lparr> exit_code = 0, error_output = [],
            closing_output = [''Plot exported to: spectrum_plot.gif'',
                               ''Processing completed successfully!''],
            artifact = None \<rparr>"
  using unsupported_format_exits_zero [of gif_params "\<lambda>f. True"] gif_run_returns
  by (simp add: gif_params_def demo_params_def default_params_def supported_formats_def
      open_input_def)

end
